theory Spec2Isabelle
  imports Main "HOL-Library.Word" "HOL-Library.Multiset"
begin

unbundle bit_operations_syntax

section \<open>Data model\<close>

text \<open>
  The Go package \<^verbatim>\<open>quantize\<close> (files \<^verbatim>\<open>mediancut.go\<close> with the buffer pool, and
  \<^verbatim>\<open>bucket.go\<close>). Channels are \<^verbatim>\<open>uint8\<close>, weights are \<^verbatim>\<open>uint32\<close>, running sums are
  \<^verbatim>\<open>uint64\<close>: all three are words, so \<open>+\<close> wraps as in Go. Go's \<^verbatim>\<open>int\<close> is taken to be
  64 bits wide; it is modelled by \<open>int\<close>, with the wrap-around written out
  (\<open>wrap64\<close>) where a value can leave the 64-bit range.
\<close>

type_synonym u8 = "8 word"
type_synonym u32 = "32 word"
type_synonym u64 = "64 word"

text \<open>Run-time panics of the Go code are values of the model.\<close>

datatype panic =
    IndexOutOfRange
  | SliceBoundsOutOfRange
  | MakeSliceOutOfRange
  | DivideByZero

text \<open>\<^verbatim>\<open>color.RGBA\<close> of the standard library: four 8-bit channels.\<close>

record rgba =
  R :: u8
  G :: u8
  B :: u8
  A :: u8

text \<open>\<^verbatim>\<open>type colorPriority struct { p uint32; color.RGBA }\<close>\<close>

record colorPriority =
  p :: u32
  RGBA :: rgba

type_synonym colorBucket = "colorPriority list"

text \<open>The zero value \<^verbatim>\<open>colorPriority{}\<close>.\<close>

definition zeroColorPriority :: colorPriority where
  "zeroColorPriority = \<lparr>p = 0, RGBA = \<lparr>R = 0, G = 0, B = 0, A = 0\<rparr>\<rparr>"

text \<open>Two's-complement wrap-around of a 64-bit \<^verbatim>\<open>int\<close>.\<close>

definition wrap64 :: "int \<Rightarrow> int" where
  "wrap64 x = (x + 2 ^ 63) mod 2 ^ 64 - 2 ^ 63"

text \<open>Go's \<^verbatim>\<open>/\<close> and \<^verbatim>\<open>%\<close> on integers truncate towards zero; the divisor is checked
  by the caller (a zero divisor panics).\<close>

definition go_quot :: "int \<Rightarrow> int \<Rightarrow> int" where
  "go_quot a b = sgn a * sgn b * (\<bar>a\<bar> div \<bar>b\<bar>)"

definition go_rem :: "int \<Rightarrow> int \<Rightarrow> int" where
  "go_rem a b = sgn a * (\<bar>a\<bar> mod \<bar>b\<bar>)"

section \<open>The buffer pool\<close>

text \<open>
  A Go slice of \<^verbatim>\<open>colorPriority\<close> as the pool sees it: the backing array from the
  slice's first element on (its length is the slice's capacity) and the slice's length.
\<close>

record slice =
  arr :: "colorPriority list"
  len :: nat

definition cap :: "slice \<Rightarrow> nat" where
  "cap s = length (arr s)"

definition contents :: "slice \<Rightarrow> colorBucket" where
  "contents s = take (len s) (arr s)"

text \<open>
  \<^verbatim>\<open>type bucketPool struct { sync.Pool; maxCap int; m sync.Mutex }\<close>. The mutex only
  guards \<open>maxCap\<close>; the free list \<^verbatim>\<open>sync.Pool\<close> hands out any buffer released before, or
  nothing, so what \<^verbatim>\<open>Pool.Get()\<close> returns is an argument of the model (\<open>None\<close> is \<^verbatim>\<open>nil\<close>).
\<close>

record bucketPool =
  maxCap :: int

text \<open>\<^verbatim>\<open>make(colorBucket, n)[0:c]\<close>\<close>

definition make_slice :: "int \<Rightarrow> int \<Rightarrow> panic + slice" where
  "make_slice n c =
     (if n < 0 then Inl MakeSliceOutOfRange
      else if c < 0 \<or> n < c then Inl SliceBoundsOutOfRange
      else Inr \<lparr>arr = replicate (nat n) zeroColorPriority, len = nat c\<rparr>)"

text \<open>\<^verbatim>\<open>slice = slice[0:c]; for i := range slice { slice[i] = colorPriority{} }\<close>\<close>

definition reslice_clear :: "slice \<Rightarrow> int \<Rightarrow> panic + slice" where
  "reslice_clear s c =
     (if c < 0 \<or> int (cap s) < c then Inl SliceBoundsOutOfRange
      else Inr \<lparr>arr = replicate (nat c) zeroColorPriority @ drop (nat c) (arr s),
                len = nat c\<rparr>)"

definition getBucket :: "bucketPool \<Rightarrow> slice option \<Rightarrow> int \<Rightarrow> bucketPool \<times> (panic + slice)" where
  "getBucket pool val c =
     (let m1 = (if maxCap pool > c then go_quot (wrap64 (maxCap pool * 99)) 100
                else maxCap pool);
          m2 = (if m1 < c then c else m1);
          pool' = pool\<lparr>maxCap := m2\<rparr>
      in case val of
           None \<Rightarrow> (pool', make_slice m2 c)
         | Some s \<Rightarrow>
             if int (cap s) < c then (pool', make_slice m2 c)
             else (pool', reslice_clear s c))"

section \<open>Buckets (bucket.go)\<close>

datatype colorAxis = red | green | blue

text \<open>\<^verbatim>\<open>gt(c, other, span)\<close>: is \<open>c\<close> greater than \<open>other\<close> on the channel \<open>span\<close>?\<close>

fun gt :: "u8 \<Rightarrow> rgba \<Rightarrow> colorAxis \<Rightarrow> bool" where
  "gt c other red = (c > R other)"
| "gt c other green = (c > G other)"
| "gt c other blue = (c > B other)"

text \<open>
  \<^verbatim>\<open>type constraint struct { min uint8; max uint8; vals [256]uint64 }\<close>. The array is
  indexed by a \<^verbatim>\<open>uint8\<close>, so it is a function on \<open>u8\<close>.
\<close>

record constraint =
  cmin :: u8
  cmax :: u8
  vals :: "u8 \<Rightarrow> u64"

definition update :: "constraint \<Rightarrow> u8 \<Rightarrow> u32 \<Rightarrow> constraint" where
  "update c index w =
     (let c1 = (if index < cmin c then c\<lparr>cmin := index\<rparr> else c);
          c2 = (if index > cmax c1 then c1\<lparr>cmax := index\<rparr> else c1)
      in c2\<lparr>vals := (vals c2)(index := vals c2 index + ucast w)\<rparr>)"

text \<open>\<^verbatim>\<open>func (c *constraint) span() uint8 { return c.max - c.min }\<close>\<close>

definition cspan :: "constraint \<Rightarrow> u8" where
  "cspan c = cmax c - cmin c"

text \<open>The zero \<^verbatim>\<open>constraint\<close> with \<^verbatim>\<open>min = 255\<close>, as \<^verbatim>\<open>span\<close> initialises it.\<close>

definition constraint0 :: constraint where
  "constraint0 = \<lparr>cmin = 255, cmax = 0, vals = (\<lambda>_. 0)\<rparr>"

text \<open>The first loop of \<^verbatim>\<open>span\<close>: the three channel statistics and the total weight.\<close>

fun span_stats :: "colorBucket \<Rightarrow> constraint \<times> constraint \<times> constraint \<times> u64
                   \<Rightarrow> constraint \<times> constraint \<times> constraint \<times> u64" where
  "span_stats [] st = st"
| "span_stats (c # cb) (cR, cG, cB, tot) =
     span_stats cb (update cR (R (RGBA c)) (p c), update cG (G (RGBA c)) (p c),
                    update cB (B (RGBA c)) (p c), tot + ucast (p c))"

text \<open>
  The last loop of \<^verbatim>\<open>span\<close>,
  \<^verbatim>\<open>for i, c = range toCount.vals { if counted > p/2 || counted+c == p { break }; counted += c }\<close>:
  the value of \<open>i\<close> after the loop. When the loop runs through, \<open>i\<close> keeps the last
  index, 255.
\<close>

function count_loop :: "(u8 \<Rightarrow> u64) \<Rightarrow> u64 \<Rightarrow> u64 \<Rightarrow> nat \<Rightarrow> nat" where
  "count_loop vs tot counted i =
     (if counted > tot div 2 \<or> counted + vs (of_nat i) = tot then i
      else if 255 \<le> i then i
      else count_loop vs tot (counted + vs (of_nat i)) (i + 1))"
  by pat_completeness auto
termination
  by (relation "measure (\<lambda>(vs, tot, counted, i). 255 - i)") auto

declare count_loop.simps [simp del]

text \<open>The choice of the axis in \<^verbatim>\<open>span\<close>.\<close>

definition choose_axis :: "constraint \<Rightarrow> constraint \<Rightarrow> constraint \<Rightarrow> colorAxis" where
  "choose_axis cR cG cB =
     (if cspan cR > cspan cG \<and> cspan cR > cspan cB then red
      else if cspan cG > cspan cB then green
      else blue)"

definition toCount :: "colorAxis \<Rightarrow> constraint \<Rightarrow> constraint \<Rightarrow> constraint \<Rightarrow> constraint" where
  "toCount ax cR cG cB = (case ax of red \<Rightarrow> cR | green \<Rightarrow> cG | blue \<Rightarrow> cB)"

definition span :: "colorBucket \<Rightarrow> u8 \<times> colorAxis" where
  "span cb =
     (case span_stats cb (constraint0, constraint0, constraint0, 0) of
        (cR, cG, cB, tot) \<Rightarrow>
          (let ax = choose_axis cR cG cB
           in (of_nat (count_loop (vals (toCount ax cR cG cB)) tot 0 0), ax)))"

text \<open>
  \<^verbatim>\<open>partition\<close>. The two inner loops read \<^verbatim>\<open>cb[left]\<close> and \<^verbatim>\<open>cb[right]\<close> with no bound
  check of their own: an index that leaves the slice panics.
\<close>

function scan_left :: "u8 \<Rightarrow> colorAxis \<Rightarrow> colorBucket \<Rightarrow> int \<Rightarrow> panic + int" where
  "scan_left mn ax cb left =
     (if left < 0 \<or> int (length cb) \<le> left then Inl IndexOutOfRange
      else if gt mn (RGBA (cb ! nat left)) ax then scan_left mn ax cb (left + 1)
      else Inr left)"
  by pat_completeness auto
termination
  by (relation "measure (\<lambda>(mn, ax, cb, left). nat (int (length cb) - left))") auto

declare scan_left.simps [simp del]

function scan_right :: "u8 \<Rightarrow> colorAxis \<Rightarrow> colorBucket \<Rightarrow> int \<Rightarrow> panic + int" where
  "scan_right mn ax cb right =
     (if right < 0 \<or> int (length cb) \<le> right then Inl IndexOutOfRange
      else if \<not> gt mn (RGBA (cb ! nat right)) ax then scan_right mn ax cb (right - 1)
      else Inr right)"
  by pat_completeness auto
termination
  by (relation "measure (\<lambda>(mn, ax, cb, right). nat (right + 1))") auto

declare scan_right.simps [simp del]

text \<open>\<^verbatim>\<open>cb[left], cb[right] = cb[right], cb[left]\<close>\<close>

definition swap :: "colorBucket \<Rightarrow> int \<Rightarrow> int \<Rightarrow> colorBucket" where
  "swap cb l r = cb[nat l := cb ! nat r, nat r := cb ! nat l]"

text \<open>
  The outer loop of \<^verbatim>\<open>partition\<close>, \<^verbatim>\<open>for left < right { ...; swap }\<close>. The swap is
  done after the two scans whether or not the indices have crossed.
\<close>

function partition_loop ::
  "u8 \<Rightarrow> colorAxis \<Rightarrow> colorBucket \<Rightarrow> int \<Rightarrow> int \<Rightarrow> panic + (colorBucket \<times> int)" where
  "partition_loop mn ax cb left right =
     (if left < right then
        (case scan_left mn ax cb left of
           Inl e \<Rightarrow> Inl e
         | Inr l \<Rightarrow>
             (case scan_right mn ax cb right of
                Inl e \<Rightarrow> Inl e
              | Inr r \<Rightarrow> partition_loop mn ax (swap cb l r) l r))
      else Inr (cb, left))"
  by pat_completeness auto
termination
proof (relation "measure (\<lambda>(mn, ax, cb, left, right).
          2 * nat (right - left)
          + (if 0 \<le> left \<and> left < int (length cb) \<and> \<not> gt mn (RGBA (cb ! nat left)) ax
             then 1 else 0))", goal_cases)
  case 1
  show ?case by simp
next
  case (2 mn ax cb left right l r)
  have "scan_left mn ax cb left = Inr l \<longrightarrow>
          left \<le> l \<and> 0 \<le> l \<and> l < int (length cb) \<and> \<not> gt mn (RGBA (cb ! nat l)) ax"
    by (induction mn ax cb left rule: scan_left.induct)
       (subst scan_left.simps, auto)
  moreover have "scan_right mn ax cb right = Inr r \<longrightarrow>
          r \<le> right \<and> 0 \<le> r \<and> r < int (length cb) \<and> gt mn (RGBA (cb ! nat r)) ax"
    by (induction mn ax cb right rule: scan_right.induct)
       (subst scan_right.simps, auto)
  ultimately
  have l: "left \<le> l" "0 \<le> l" "l < int (length cb)" "\<not> gt mn (RGBA (cb ! nat l)) ax"
    and r: "r \<le> right" "0 \<le> r" "r < int (length cb)" "gt mn (RGBA (cb ! nat r)) ax"
    using 2 by auto
  have sw: "swap cb l r ! nat l = cb ! nat r"
    using l r by (auto simp: swap_def nth_list_update)
  show ?case
  proof (cases "l = left")
    case True
    with 2 l r sw show ?thesis by auto
  next
    case False
    with 2 l r sw show ?thesis by auto
  qed
qed

declare partition_loop.simps [simp del]

text \<open>\<^verbatim>\<open>return cb[:left], cb[left:]\<close>\<close>

definition partition :: "colorBucket \<Rightarrow> panic + (colorBucket \<times> colorBucket)" where
  "partition cb =
     (case span cb of
        (mn, ax) \<Rightarrow>
          (case partition_loop mn ax cb 0 (int (length cb) - 1) of
             Inl e \<Rightarrow> Inl e
           | Inr (cb', left) \<Rightarrow> Inr (take (nat left) cb', drop (nat left) cb')))"

text \<open>
  \<^verbatim>\<open>mean\<close>: the weighted sums of the three channels and the total weight, in
  \<^verbatim>\<open>uint64\<close>; the division \<^verbatim>\<open>r / p\<close> panics when the total weight is 0.
\<close>

fun mean_sums :: "colorBucket \<Rightarrow> u64 \<times> u64 \<times> u64 \<times> u64 \<Rightarrow> u64 \<times> u64 \<times> u64 \<times> u64" where
  "mean_sums [] st = st"
| "mean_sums (c # cb) (r, g, b, tot) =
     mean_sums cb (r + ucast (R (RGBA c)) * ucast (p c),
                   g + ucast (G (RGBA c)) * ucast (p c),
                   b + ucast (B (RGBA c)) * ucast (p c),
                   tot + ucast (p c))"

definition mean :: "colorBucket \<Rightarrow> panic + rgba" where
  "mean cb =
     (case mean_sums cb (0, 0, 0, 0) of
        (r, g, b, tot) \<Rightarrow>
          if tot = 0 then Inl DivideByZero
          else Inr \<lparr>R = ucast (r div tot), G = ucast (g div tot), B = ucast (b div tot),
                    A = 255\<rparr>)"

section \<open>Median cut (mediancut.go)\<close>

datatype AggregationType = Mode | Mean

text \<open>
  \<^verbatim>\<open>image.Image\<close> is an interface of the standard library. The code reads an image's
  bounds, its dynamic type (is it \<^verbatim>\<open>*image.YCbCr\<close>?) and, through \<^verbatim>\<open>colorAt\<close>, one
  \<^verbatim>\<open>color.RGBA\<close> per coordinate; \<open>colorAt\<close> is that function (for a \<^verbatim>\<open>YCbCr\<close> image it
  returns the raw \<open>(Y, Cb, Cr, 255)\<close>).
\<close>

record image =
  minX :: int
  minY :: int
  maxX :: int
  maxY :: int
  isYCbCr :: bool
  colorAt :: "int \<Rightarrow> int \<Rightarrow> rgba"

record MedianCutQuantizer =
  Aggregation :: AggregationType
  Weighting :: "(image \<Rightarrow> int \<Rightarrow> int \<Rightarrow> u32) option"
  AddTransparent :: bool

text \<open>
  The body of the loop of \<^verbatim>\<open>bucketize\<close>: dequeue the oldest bucket, enqueue it again or
  enqueue its two parts. The buckets are sub-slices of one array over disjoint index
  ranges, and \<^verbatim>\<open>partition\<close> swaps inside its own range only, so each bucket is modelled
  by its own list.
\<close>

definition bucketize_step :: "colorBucket list \<Rightarrow> panic + colorBucket list" where
  "bucketize_step buckets =
     (case buckets of
        [] \<Rightarrow> Inl IndexOutOfRange
      | bucket # rest \<Rightarrow>
          if length bucket < 2 then Inr (rest @ [bucket])
          else if length bucket = 2 then Inr (rest @ [take 1 bucket, drop 1 bucket])
          else (case partition bucket of
                  Inl e \<Rightarrow> Inl e
                | Inr (left, right) \<Rightarrow> Inr (rest @ [left, right])))"

text \<open>
  \<^verbatim>\<open>for len(buckets) < num && len(buckets) < len(colors) { ... }\<close>; \<open>n\<close> is
  \<^verbatim>\<open>len(colors)\<close>. \<open>None\<close> is a loop that never ends.
\<close>

partial_function (option) bucketize_loop ::
  "int \<Rightarrow> nat \<Rightarrow> colorBucket list \<Rightarrow> (panic + colorBucket list) option" where
  "bucketize_loop num n buckets =
     (if int (length buckets) < num \<and> length buckets < n then
        (case bucketize_step buckets of
           Inl e \<Rightarrow> Some (Inl e)
         | Inr buckets' \<Rightarrow> bucketize_loop num n buckets')
      else Some (Inr buckets))"

text \<open>\<^verbatim>\<open>make([]colorBucket, 1, num*2)\<close> panics when the capacity \<open>num*2\<close> is below the
  length 1, that is for a negative \<open>num\<close> (\<open>num = 0\<close> has returned before).\<close>

definition bucketize :: "colorBucket \<Rightarrow> int \<Rightarrow> (panic + colorBucket list) option" where
  "bucketize colors num =
     (if length colors = 0 \<or> num = 0 then Some (Inr [])
      else if num * 2 < 1 then Some (Inl MakeSliceOutOfRange)
      else bucketize_loop num (length colors) [colors])"

text \<open>The inner loop of the \<^verbatim>\<open>Mode\<close> case of \<^verbatim>\<open>palettize\<close>.\<close>

fun mode_best :: "colorBucket \<Rightarrow> colorPriority \<Rightarrow> colorPriority" where
  "mode_best [] best = best"
| "mode_best (c # cb) best = mode_best cb (if p c > p best then c else best)"

fun palettize :: "MedianCutQuantizer \<Rightarrow> rgba list \<Rightarrow> colorBucket list \<Rightarrow> panic + rgba list" where
  "palettize q pal [] = Inr pal"
| "palettize q pal (bucket # buckets) =
     (case Aggregation q of
        Mean \<Rightarrow>
          (case mean bucket of
             Inl e \<Rightarrow> Inl e
           | Inr m \<Rightarrow> palettize q (pal @ [m]) buckets)
      | Mode \<Rightarrow> palettize q (pal @ [RGBA (mode_best bucket zeroColorPriority)]) buckets)"

text \<open>
  A \<^verbatim>\<open>color.Palette\<close> argument: its elements and its capacity. The entries are
  \<^verbatim>\<open>color.Color\<close> values; the code appends \<^verbatim>\<open>color.RGBA\<close> values only and reads of an
  entry only the alpha that its method \<^verbatim>\<open>RGBA()\<close> returns, so entries are \<open>rgba\<close>.
\<close>

record Palette =
  elems :: "rgba list"
  capacity :: nat

text \<open>The alpha returned by \<^verbatim>\<open>color.RGBA.RGBA()\<close>: \<^verbatim>\<open>a = uint32(c.A); a |= a << 8\<close>.\<close>

definition RGBA_alpha :: "rgba \<Rightarrow> u32" where
  "RGBA_alpha c = ucast (A c) OR push_bit 8 (ucast (A c))"

definition transparent :: rgba where
  "transparent = \<lparr>R = 0, G = 0, B = 0, A = 0\<rparr>"

definition quantizeSlice ::
  "MedianCutQuantizer \<Rightarrow> Palette \<Rightarrow> colorBucket \<Rightarrow> (panic + rgba list) option" where
  "quantizeSlice q pal colors =
     (let numColors = int (capacity pal) - int (length (elems pal));
          addTransparent =
            (AddTransparent q
             \<and> fold (\<lambda>c t. if RGBA_alpha c = 0 then False else t) (elems pal) True);
          numColors' = (if addTransparent then numColors - 1 else numColors)
      in case bucketize colors numColors' of
           None \<Rightarrow> None
         | Some (Inl e) \<Rightarrow> Some (Inl e)
         | Some (Inr buckets) \<Rightarrow>
             (case palettize q (elems pal) buckets of
                Inl e \<Rightarrow> Some (Inl e)
              | Inr pal' \<Rightarrow>
                  Some (Inr (if addTransparent then pal' @ [transparent] else pal'))))"

text \<open>The bounding box of all images, from \<^verbatim>\<open>math.MaxInt32, 0, math.MaxInt32, 0\<close>.\<close>

fun bounds_loop :: "image list \<Rightarrow> int \<times> int \<times> int \<times> int \<Rightarrow> int \<times> int \<times> int \<times> int" where
  "bounds_loop [] st = st"
| "bounds_loop (m # ms) (leastX, greatestX, leastY, greatestY) =
     bounds_loop ms
       (if minX m < leastX then minX m else leastX,
        if maxX m > greatestX then maxX m else greatestX,
        if minY m < leastY then minY m else leastY,
        if maxY m > greatestY then maxY m else greatestY)"

text \<open>\<^verbatim>\<open>index := int(c.R)<<16 | int(c.G)<<8 | int(c.B)\<close>\<close>

definition color_index :: "rgba \<Rightarrow> int" where
  "color_index c = push_bit 16 (uint (R c)) OR push_bit 8 (uint (G c)) OR uint (B c)"

text \<open>
  The probing loop
  \<^verbatim>\<open>for i := 1; ; i++ { p := &sparseBucket[index%size]; if p.p == 0 || p.RGBA == c { *p = colorPriority{p.p + priority, c}; break }; index += 1 + i }\<close>.
  It has no exit but the \<^verbatim>\<open>break\<close>; \<open>None\<close> is a loop that never ends. \<^verbatim>\<open>index%size\<close>
  panics for \<^verbatim>\<open>size == 0\<close> and has the sign of \<open>index\<close>, and the indexing panics outside
  the table. \<open>i\<close> and \<open>index\<close> are 64-bit and wrap.
\<close>

partial_function (option) probe ::
  "colorBucket \<Rightarrow> int \<Rightarrow> rgba \<Rightarrow> u32 \<Rightarrow> int \<Rightarrow> int \<Rightarrow> (panic + colorBucket) option" where
  "probe tbl sz c priority i index =
     (if sz = 0 then Some (Inl DivideByZero)
      else if go_rem index sz < 0 \<or> int (length tbl) \<le> go_rem index sz
        then Some (Inl IndexOutOfRange)
      else if p (tbl ! nat (go_rem index sz)) = 0 \<or> RGBA (tbl ! nat (go_rem index sz)) = c
        then Some (Inr (tbl[nat (go_rem index sz) :=
                        \<lparr>p = p (tbl ! nat (go_rem index sz)) + priority, RGBA = c\<rparr>]))
      else probe tbl sz c priority (wrap64 (i + 1)) (wrap64 (index + wrap64 (1 + i))))"

text \<open>The coordinates of an image in scan order: rows \<open>y\<close>, and \<open>x\<close> within a row.\<close>

definition pixels :: "image \<Rightarrow> (int \<times> int) list" where
  "pixels m = concat (map (\<lambda>y. map (\<lambda>x. (x, y)) [minX m..maxX m - 1]) [minY m..maxY m - 1])"

fun scan_pixels ::
  "MedianCutQuantizer \<Rightarrow> image \<Rightarrow> int \<Rightarrow> (int \<times> int) list \<Rightarrow> colorBucket
   \<Rightarrow> (panic + colorBucket) option" where
  "scan_pixels q m sz [] tbl = Some (Inr tbl)"
| "scan_pixels q m sz ((x, y) # ps) tbl =
     (let priority = (case Weighting q of None \<Rightarrow> 1 | Some f \<Rightarrow> f m x y)
      in if priority \<noteq> 0 then
           (case probe tbl sz (colorAt m x y) priority 1 (color_index (colorAt m x y)) of
              None \<Rightarrow> None
            | Some (Inl e) \<Rightarrow> Some (Inl e)
            | Some (Inr tbl') \<Rightarrow> scan_pixels q m sz ps tbl')
         else scan_pixels q m sz ps tbl)"

fun scan_images ::
  "MedianCutQuantizer \<Rightarrow> int \<Rightarrow> image list \<Rightarrow> colorBucket \<Rightarrow> (panic + colorBucket) option" where
  "scan_images q sz [] tbl = Some (Inr tbl)"
| "scan_images q sz (m # ms) tbl =
     (case scan_pixels q m sz (pixels m) tbl of
        None \<Rightarrow> None
      | Some (Inl e) \<Rightarrow> Some (Inl e)
      | Some (Inr tbl') \<Rightarrow> scan_images q sz ms tbl')"

text \<open>
  The compaction of the table: the slots of non-zero weight in table order, converted
  by \<^verbatim>\<open>color.YCbCrToRGB\<close> of the standard library (the argument \<open>ycc\<close>) when the first
  image is a \<^verbatim>\<open>YCbCr\<close> image.
\<close>

definition compact ::
  "(u8 \<Rightarrow> u8 \<Rightarrow> u8 \<Rightarrow> u8 \<times> u8 \<times> u8) \<Rightarrow> bool \<Rightarrow> colorBucket \<Rightarrow> colorBucket" where
  "compact ycc isY tbl =
     (if isY then
        map (\<lambda>e. case ycc (R (RGBA e)) (G (RGBA e)) (B (RGBA e)) of
                   (r, g, b) \<Rightarrow> \<lparr>p = p e, RGBA = \<lparr>R = r, G = g, B = b, A = A (RGBA e)\<rparr>\<rparr>)
            (filter (\<lambda>e. p e \<noteq> 0) tbl)
      else filter (\<lambda>e. p e \<noteq> 0) tbl)"

definition MaxInt32 :: int where
  "MaxInt32 = 2147483647"

text \<open>
  \<^verbatim>\<open>buildBucketMultiple\<close>, with the pool passed in and returned. The table size
  \<^verbatim>\<open>(greatestX - leastX) * (greatestY - leastY) * 2\<close> is computed in 64-bit integers: each
  subtraction and each product wraps.
\<close>

definition buildBucketMultiple ::
  "MedianCutQuantizer \<Rightarrow> (u8 \<Rightarrow> u8 \<Rightarrow> u8 \<Rightarrow> u8 \<times> u8 \<times> u8) \<Rightarrow> bucketPool \<Rightarrow> slice option
   \<Rightarrow> image list \<Rightarrow> bucketPool \<times> (panic + colorBucket) option" where
  "buildBucketMultiple q ycc pool val ms =
     (if length ms < 1 then (pool, Some (Inr []))
      else
        (case bounds_loop ms (MaxInt32, 0, MaxInt32, 0) of
           (leastX, greatestX, leastY, greatestY) \<Rightarrow>
             (let sz = wrap64 (wrap64 (wrap64 (greatestX - leastX)
                                         * wrap64 (greatestY - leastY)) * 2)
              in case getBucket pool val sz of
                   (pool', Inl e) \<Rightarrow> (pool', Some (Inl e))
                 | (pool', Inr sparseBucket) \<Rightarrow>
                     (pool',
                      case scan_images q sz ms (contents sparseBucket) of
                        None \<Rightarrow> None
                      | Some (Inl e) \<Rightarrow> Some (Inl e)
                      | Some (Inr tbl) \<Rightarrow> Some (Inr (compact ycc (isYCbCr (hd ms)) tbl))))))"

text \<open>\<^verbatim>\<open>QuantizeMultiple\<close> and \<^verbatim>\<open>Quantize\<close> (the latter on the one-image list).\<close>

definition QuantizeMultiple ::
  "MedianCutQuantizer \<Rightarrow> (u8 \<Rightarrow> u8 \<Rightarrow> u8 \<Rightarrow> u8 \<times> u8 \<times> u8) \<Rightarrow> bucketPool \<Rightarrow> slice option
   \<Rightarrow> Palette \<Rightarrow> image list \<Rightarrow> bucketPool \<times> (panic + rgba list) option" where
  "QuantizeMultiple q ycc pool val pal ms =
     (case buildBucketMultiple q ycc pool val ms of
        (pool', None) \<Rightarrow> (pool', None)
      | (pool', Some (Inl e)) \<Rightarrow> (pool', Some (Inl e))
      | (pool', Some (Inr bucket)) \<Rightarrow> (pool', quantizeSlice q pal bucket))"

definition Quantize ::
  "MedianCutQuantizer \<Rightarrow> (u8 \<Rightarrow> u8 \<Rightarrow> u8 \<Rightarrow> u8 \<times> u8 \<times> u8) \<Rightarrow> bucketPool \<Rightarrow> slice option
   \<Rightarrow> Palette \<Rightarrow> image \<Rightarrow> bucketPool \<times> (panic + rgba list) option" where
  "Quantize q ycc pool val pal m = QuantizeMultiple q ycc pool val pal [m]"

section \<open>Notions of the specification\<close>

text \<open>
  The range of a channel over a bucket, as the specification words it: the greatest
  value minus the least value that the channel takes among the members.
\<close>

definition chan_range :: "(rgba \<Rightarrow> u8) \<Rightarrow> colorBucket \<Rightarrow> u8" where
  "chan_range ch cb = Max ((\<lambda>c. ch (RGBA c)) ` set cb) - Min ((\<lambda>c. ch (RGBA c)) ` set cb)"

text \<open>The running minimum and maximum that \<open>update\<close> keeps, started from \<open>m\<close>.\<close>

fun chan_min :: "(rgba \<Rightarrow> u8) \<Rightarrow> colorBucket \<Rightarrow> u8 \<Rightarrow> u8" where
  "chan_min ch [] m = m"
| "chan_min ch (c # cb) m = chan_min ch cb (min (ch (RGBA c)) m)"

fun chan_max :: "(rgba \<Rightarrow> u8) \<Rightarrow> colorBucket \<Rightarrow> u8 \<Rightarrow> u8" where
  "chan_max ch [] m = m"
| "chan_max ch (c # cb) m = chan_max ch cb (max (ch (RGBA c)) m)"

text \<open>
  The total weight of a list of weighted colors, and the total weight that the weighting
  function gives to the pixels of an image and of a list of images (weight 1 per pixel
  without a weighting function). The sums are sums of natural numbers: they do not wrap.
\<close>

definition weight_sum :: "colorBucket \<Rightarrow> nat" where
  "weight_sum cb = sum_list (map (\<lambda>c. unat (p c)) cb)"

definition pixel_weight :: "MedianCutQuantizer \<Rightarrow> image \<Rightarrow> int \<times> int \<Rightarrow> nat" where
  "pixel_weight q m xy =
     unat (case Weighting q of None \<Rightarrow> 1 | Some f \<Rightarrow> f m (fst xy) (snd xy))"

definition image_weight :: "MedianCutQuantizer \<Rightarrow> image \<Rightarrow> nat" where
  "image_weight q m = sum_list (map (pixel_weight q m) (pixels m))"

definition total_weight :: "MedianCutQuantizer \<Rightarrow> image list \<Rightarrow> nat" where
  "total_weight q ms = sum_list (map (image_weight q) ms)"

text \<open>
  The table size that \<open>buildBucketMultiple\<close> computes for a list of images,
  \<^verbatim>\<open>(greatestX - leastX) * (greatestY - leastY) * 2\<close> in wrapping 64-bit arithmetic, and
  the area of the box it is computed from, as a number (it does not wrap): the bounding
  box of the images, with the least coordinates started from \<open>MaxInt32\<close> and the greatest
  from 0.
\<close>

definition table_size :: "image list \<Rightarrow> int" where
  "table_size ms =
     (case bounds_loop ms (MaxInt32, 0, MaxInt32, 0) of
        (leastX, greatestX, leastY, greatestY) \<Rightarrow>
          wrap64 (wrap64 (wrap64 (greatestX - leastX) * wrap64 (greatestY - leastY)) * 2))"

definition bbox_area :: "image list \<Rightarrow> int" where
  "bbox_area ms =
     (case bounds_loop ms (MaxInt32, 0, MaxInt32, 0) of
        (leastX, greatestX, leastY, greatestY) \<Rightarrow>
          (greatestX - leastX) * (greatestY - leastY))"

text \<open>
  The total weight of the pixels of one color \<open>c\<close>, in a list of pixels of an image and in
  a list of images.
\<close>

definition color_weight_pixels ::
  "MedianCutQuantizer \<Rightarrow> image \<Rightarrow> (int \<times> int) list \<Rightarrow> rgba \<Rightarrow> nat" where
  "color_weight_pixels q m ps c =
     sum_list (map (pixel_weight q m) (filter (\<lambda>xy. colorAt m (fst xy) (snd xy) = c) ps))"

definition color_weight :: "MedianCutQuantizer \<Rightarrow> image list \<Rightarrow> rgba \<Rightarrow> nat" where
  "color_weight q ms c = sum_list (map (\<lambda>m. color_weight_pixels q m (pixels m) c) ms)"

section \<open>Properties of the buffer pool\<close>

lemma getBucket_maxCap_ge: "c \<le> maxCap (fst (getBucket pool val c))"
  by (simp add: getBucket_def Let_def split: option.split)

lemma make_slice_zeroed:
  assumes "0 \<le> c" and "c \<le> n"
  shows "\<exists>s. make_slice n c = Inr s \<and> len s = nat c
           \<and> contents s = replicate (nat c) zeroColorPriority"
  using assms by (simp add: make_slice_def contents_def min_def)

lemma reslice_clear_zeroed:
  assumes "0 \<le> c" and "c \<le> int (cap s)"
  shows "\<exists>s'. reslice_clear s c = Inr s' \<and> len s' = nat c
           \<and> contents s' = replicate (nat c) zeroColorPriority"
  using assms by (simp add: reslice_clear_def contents_def)

text \<open>
  Claim C9. Every call \<open>getBucket c\<close> with a length \<open>0 \<le> c\<close> returns a buffer of length
  exactly \<open>c\<close> whose entries are all the zero \<open>colorPriority\<close> (weight 0), whatever the
  pool's high-water mark is and whatever the free list hands out: a released buffer of
  capacity at least \<open>c\<close> is trimmed and cleared, otherwise a fresh buffer of the
  high-water-mark size is allocated and trimmed.
\<close>

theorem getBucket_zeroed:
  assumes "0 \<le> c"
  shows "\<exists>s. snd (getBucket pool val c) = Inr s \<and> len s = nat c
           \<and> contents s = replicate (nat c) zeroColorPriority
           \<and> (\<forall>e \<in> set (contents s). p e = 0)"
proof -
  let ?m = "maxCap (fst (getBucket pool val c))"
  have m: "c \<le> ?m" by (rule getBucket_maxCap_ge)
  have zero: "\<And>s. contents s = replicate (nat c) zeroColorPriority
                \<Longrightarrow> \<forall>e \<in> set (contents s). p e = 0"
    by (simp add: zeroColorPriority_def)
  show ?thesis
  proof (cases val)
    case None
    then have "snd (getBucket pool val c) = make_slice ?m c"
      by (simp add: getBucket_def Let_def)
    with make_slice_zeroed [OF assms m] zero show ?thesis by auto
  next
    case (Some s)
    show ?thesis
    proof (cases "int (cap s) < c")
      case True
      with Some have "snd (getBucket pool val c) = make_slice ?m c"
        by (simp add: getBucket_def Let_def)
      with make_slice_zeroed [OF assms m] zero show ?thesis by auto
    next
      case False
      with Some have "snd (getBucket pool val c) = reslice_clear s c"
        by (simp add: getBucket_def Let_def)
      moreover from False have "c \<le> int (cap s)" by simp
      ultimately show ?thesis
        using reslice_clear_zeroed [OF assms, of s] zero by auto
    qed
  qed
qed

theorem getBucket_zeroed_witness:
  "(0::int) \<le> 2 \<and>
   (\<exists>s. snd (getBucket \<lparr>maxCap = 10\<rparr>
              (Some \<lparr>arr = [\<lparr>p = 7, RGBA = \<lparr>R = 1, G = 2, B = 3, A = 4\<rparr>\<rparr>,
                            \<lparr>p = 9, RGBA = \<lparr>R = 5, G = 6, B = 7, A = 8\<rparr>\<rparr>,
                            \<lparr>p = 1, RGBA = \<lparr>R = 0, G = 0, B = 0, A = 255\<rparr>\<rparr>],
                     len = 0\<rparr>) 2) = Inr s
        \<and> len s = nat 2
        \<and> contents s = replicate (nat 2) zeroColorPriority
        \<and> (\<forall>e \<in> set (contents s). p e = 0))"
  using getBucket_zeroed [of 2 "\<lparr>maxCap = 10\<rparr>"
      "Some \<lparr>arr = [\<lparr>p = 7, RGBA = \<lparr>R = 1, G = 2, B = 3, A = 4\<rparr>\<rparr>,
                    \<lparr>p = 9, RGBA = \<lparr>R = 5, G = 6, B = 7, A = 8\<rparr>\<rparr>,
                    \<lparr>p = 1, RGBA = \<lparr>R = 0, G = 0, B = 0, A = 255\<rparr>\<rparr>],
             len = 0\<rparr>"]
  by simp

section \<open>Mean reduction\<close>

lemma mean_sums_tot:
  "mean_sums cb (r, g, b, tot) = (r', g', b', tot')
     \<Longrightarrow> tot' = tot + of_nat (sum_list (map (\<lambda>c. unat (p c)) cb))"
proof (induction cb arbitrary: r g b tot)
  case Nil
  then show ?case by simp
next
  case (Cons c cb)
  from Cons.prems
  have "mean_sums cb (r + ucast (R (RGBA c)) * ucast (p c),
                      g + ucast (G (RGBA c)) * ucast (p c),
                      b + ucast (B (RGBA c)) * ucast (p c), tot + ucast (p c))
        = (r', g', b', tot')"
    by simp
  from Cons.IH [OF this] show ?case
    by (simp add: add.assoc of_nat_unat)
qed

lemma weight_sum_bound:
  "sum_list (map (\<lambda>c. unat (p c)) cb) \<le> length cb * (2 ^ 32 - 1)"
proof (induction cb)
  case Nil
  show ?case by simp
next
  case (Cons c cb)
  have "unat (p c) < 2 ^ 32"
    using unsigned_less [of "p c"] by simp
  with Cons show ?case by simp
qed

lemma weight_sum_pos:
  assumes "c \<in> set cb" and "p c \<noteq> 0"
  shows "0 < sum_list (map (\<lambda>c. unat (p c)) cb)"
proof -
  from assms(2) have "0 < unat (p c)" by (simp add: unat_gt_0)
  moreover from assms(1) have "unat (p c) \<le> sum_list (map (\<lambda>c. unat (p c)) cb)"
    by (induction cb) auto
  ultimately show ?thesis by simp
qed

lemma mean_returns:
  assumes "c \<in> set cb" and "p c \<noteq> 0" and "length cb < 2 ^ 32"
  shows "\<exists>m. mean cb = Inr m \<and> A m = 255"
proof -
  obtain r g b tot where ms: "mean_sums cb (0, 0, 0, 0) = (r, g, b, tot)"
    by (cases "mean_sums cb (0, 0, 0, 0)") auto
  let ?S = "sum_list (map (\<lambda>c. unat (p c)) cb)"
  from mean_sums_tot [OF ms] have tot: "tot = of_nat ?S" by simp
  have "?S \<le> length cb * (2 ^ 32 - 1)" by (rule weight_sum_bound)
  also have "\<dots> < 2 ^ 32 * 2 ^ 32"
    using assms(3) by (intro mult_strict_mono) auto
  finally have lt: "?S < 2 ^ LENGTH(64)" by simp
  have pos: "0 < ?S" using assms(1,2) by (rule weight_sum_pos)
  have "(of_nat ?S :: u64) \<noteq> 0"
    using pos lt by (rule of_nat_neq_0)
  then have "tot \<noteq> 0" by (simp add: tot)
  with ms show ?thesis by (simp add: mean_def)
qed

lemma mean_opaque: "mean cb = Inr m \<Longrightarrow> A m = 255"
  by (auto simp: mean_def split: prod.splits if_splits)

lemma palettize_append:
  "palettize q pal buckets = Inr pal' \<Longrightarrow>
     \<exists>ext. pal' = pal @ ext \<and> length ext = length buckets"
proof (induction buckets arbitrary: pal)
  case Nil
  then show ?case by simp
next
  case (Cons b bs)
  show ?case
  proof (cases "Aggregation q")
    case Mode
    with Cons.prems
    have "palettize q (pal @ [RGBA (mode_best b zeroColorPriority)]) bs = Inr pal'"
      by simp
    from Cons.IH [OF this] show ?thesis by auto
  next
    case Mean
    with Cons.prems obtain m where "mean b = Inr m"
      and "palettize q (pal @ [m]) bs = Inr pal'"
      by (auto split: sum.splits)
    from Cons.IH [OF this(2)] show ?thesis by auto
  qed
qed

text \<open>
  Claim C10. With \<open>Mean\<close> aggregation, \<open>palettize\<close> appends one entry per bucket and
  every appended entry is fully opaque (alpha exactly 255), whatever the alpha values
  of the bucket's members are. It does so for every bucket that holds a member of
  non-zero weight (as every bucket of aggregated colors does) and fewer than \<open>2^32\<close>
  members, so that the 64-bit total weight is not 0 and the division does not panic.
\<close>

theorem palettize_Mean_opaque:
  assumes "Aggregation q = Mean"
    and "\<forall>b \<in> set buckets. length b < 2 ^ 32 \<and> (\<exists>c \<in> set b. p c \<noteq> 0)"
  shows "\<exists>ext. palettize q pal buckets = Inr (pal @ ext)
           \<and> length ext = length buckets \<and> (\<forall>c \<in> set ext. A c = 255)"
  using assms(2)
proof (induction buckets arbitrary: pal)
  case Nil
  then show ?case by simp
next
  case (Cons b bs)
  from Cons.prems obtain c where "c \<in> set b" "p c \<noteq> 0" "length b < 2 ^ 32"
    by auto
  from mean_returns [OF this] obtain m where m: "mean b = Inr m" "A m = 255"
    by auto
  from Cons.prems have "\<forall>b \<in> set bs. length b < 2 ^ 32 \<and> (\<exists>c \<in> set b. p c \<noteq> 0)"
    by simp
  from Cons.IH [OF this, of "pal @ [m]"]
  obtain ext where ext: "palettize q (pal @ [m]) bs = Inr ((pal @ [m]) @ ext)"
    "length ext = length bs" "\<forall>c \<in> set ext. A c = 255"
    by auto
  have "palettize q pal (b # bs) = Inr (pal @ (m # ext))"
    using assms(1) m ext by simp
  moreover have "length (m # ext) = length (b # bs)" using ext by simp
  moreover have "\<forall>c \<in> set (m # ext). A c = 255" using m ext by simp
  ultimately show ?case by blast
qed

theorem palettize_Mean_opaque_witness:
  "Aggregation \<lparr>Aggregation = Mean, Weighting = None, AddTransparent = False\<rparr> = Mean
   \<and> length [\<lparr>p = 3, RGBA = \<lparr>R = 10, G = 20, B = 30, A = 0\<rparr>\<rparr>,
              \<lparr>p = 1, RGBA = \<lparr>R = 50, G = 60, B = 70, A = 7\<rparr>\<rparr>] < 2 ^ 32
   \<and> p \<lparr>p = 3, RGBA = \<lparr>R = 10, G = 20, B = 30, A = 0\<rparr>\<rparr> \<noteq> 0
   \<and> (\<exists>ext. palettize \<lparr>Aggregation = Mean, Weighting = None, AddTransparent = False\<rparr> []
                 [[\<lparr>p = 3, RGBA = \<lparr>R = 10, G = 20, B = 30, A = 0\<rparr>\<rparr>,
                   \<lparr>p = 1, RGBA = \<lparr>R = 50, G = 60, B = 70, A = 7\<rparr>\<rparr>]] = Inr ([] @ ext)
          \<and> length ext = length [[\<lparr>p = 3, RGBA = \<lparr>R = 10, G = 20, B = 30, A = 0\<rparr>\<rparr>,
                                     \<lparr>p = 1, RGBA = \<lparr>R = 50, G = 60, B = 70, A = 7\<rparr>\<rparr>]]
          \<and> (\<forall>c \<in> set ext. A c = 255))"
  using palettize_Mean_opaque
    [of "\<lparr>Aggregation = Mean, Weighting = None, AddTransparent = False\<rparr>"
        "[[\<lparr>p = 3, RGBA = \<lparr>R = 10, G = 20, B = 30, A = 0\<rparr>\<rparr>,
           \<lparr>p = 1, RGBA = \<lparr>R = 50, G = 60, B = 70, A = 7\<rparr>\<rparr>]]" "[]"]
  by simp

section \<open>The splitting axis\<close>

lemma update_cmin: "cmin (update c i w) = min i (cmin c)"
  by (auto simp: update_def Let_def min_def)

lemma update_cmax: "cmax (update c i w) = max i (cmax c)"
  by (auto simp: update_def Let_def max_def)

lemma chan_min_Min: "chan_min ch cb m = Min (insert m ((\<lambda>c. ch (RGBA c)) ` set cb))"
proof (induction cb arbitrary: m)
  case Nil
  show ?case by simp
next
  case (Cons c cb)
  have "insert (min (ch (RGBA c)) m) ((\<lambda>c. ch (RGBA c)) ` set cb) \<noteq> {}" by simp
  have "Min (insert (min (ch (RGBA c)) m) ((\<lambda>c. ch (RGBA c)) ` set cb))
      = Min (insert m (insert (ch (RGBA c)) ((\<lambda>c. ch (RGBA c)) ` set cb)))"
    by (cases "cb = []") (simp_all add: min.commute min.left_commute min.assoc)
  with Cons show ?case by simp
qed

lemma chan_max_Max: "chan_max ch cb m = Max (insert m ((\<lambda>c. ch (RGBA c)) ` set cb))"
proof (induction cb arbitrary: m)
  case Nil
  show ?case by simp
next
  case (Cons c cb)
  have "Max (insert (max (ch (RGBA c)) m) ((\<lambda>c. ch (RGBA c)) ` set cb))
      = Max (insert m (insert (ch (RGBA c)) ((\<lambda>c. ch (RGBA c)) ` set cb)))"
    by (cases "cb = []") (simp_all add: max.commute max.left_commute max.assoc)
  with Cons show ?case by simp
qed

lemma span_stats_minmax:
  "span_stats cb (cR, cG, cB, tot) = (cR', cG', cB', tot') \<Longrightarrow>
     cmin cR' = chan_min R cb (cmin cR) \<and> cmax cR' = chan_max R cb (cmax cR)
   \<and> cmin cG' = chan_min G cb (cmin cG) \<and> cmax cG' = chan_max G cb (cmax cG)
   \<and> cmin cB' = chan_min B cb (cmin cB) \<and> cmax cB' = chan_max B cb (cmax cB)"
proof (induction cb arbitrary: cR cG cB tot)
  case Nil
  then show ?case by simp
next
  case (Cons c cb)
  from Cons.prems
  have "span_stats cb (update cR (R (RGBA c)) (p c), update cG (G (RGBA c)) (p c),
                        update cB (B (RGBA c)) (p c), tot + ucast (p c))
        = (cR', cG', cB', tot')"
    by simp
  from Cons.IH [OF this] show ?case
    by (simp only: update_cmin update_cmax chan_min.simps chan_max.simps)
qed

lemma Min_insert_255:
  fixes S :: "u8 set"
  assumes "finite S" and "S \<noteq> {}"
  shows "Min (insert 255 S) = Min S"
proof -
  have "(255 :: u8) = - 1" by simp
  then have "Min S \<le> 255" by (simp only: word_n1_ge)
  moreover have "Min (insert 255 S) = min 255 (Min S)"
    using assms by (rule Min_insert)
  ultimately show ?thesis by (simp only: min.absorb2)
qed

lemma Max_insert_0:
  fixes S :: "u8 set"
  assumes "finite S" and "S \<noteq> {}"
  shows "Max (insert 0 S) = Max S"
proof -
  have "Max (insert 0 S) = max 0 (Max S)"
    using assms by (rule Max_insert)
  then show ?thesis by (simp add: max_def)
qed

lemma span_stats_ranges:
  assumes "cb \<noteq> []"
    and "span_stats cb (constraint0, constraint0, constraint0, 0) = (cR, cG, cB, tot)"
  shows "cspan cR = chan_range R cb \<and> cspan cG = chan_range G cb \<and> cspan cB = chan_range B cb"
proof -
  have rng: "chan_max ch cb 0 - chan_min ch cb 255 = chan_range ch cb" for ch
  proof -
    have ne: "(\<lambda>c. ch (RGBA c)) ` set cb \<noteq> {}" using assms(1) by simp
    have fin: "finite ((\<lambda>c. ch (RGBA c)) ` set cb)" by simp
    show ?thesis
      by (simp only: chan_range_def chan_min_Min chan_max_Max
            Min_insert_255 [OF fin ne] Max_insert_0 [OF fin ne])
  qed
  from span_stats_minmax [OF assms(2)] show ?thesis
    by (simp add: cspan_def constraint0_def rng)
qed

text \<open>
  Claim C5, as amended. For a non-empty bucket (so for every bucket of at least 3 members
  that \<open>partition\<close> splits) the axis that \<open>span\<close> chooses is a channel of greatest range
  (max - min over the members), and ties are broken by the fixed priority
  B > G > R: blue is chosen whenever no other range exceeds it, green when it
  exceeds blue and red does not exceed green, red only when it is strictly greatest.
\<close>

theorem span_axis_choice:
  assumes "cb \<noteq> []"
  shows "snd (span cb) =
           (if chan_range R cb \<le> chan_range B cb \<and> chan_range G cb \<le> chan_range B cb then blue
            else if chan_range R cb \<le> chan_range G cb then green
            else red)"
proof -
  obtain cR cG cB tot
    where st: "span_stats cb (constraint0, constraint0, constraint0, 0) = (cR, cG, cB, tot)"
    by (cases "span_stats cb (constraint0, constraint0, constraint0, 0)") auto
  from span_stats_ranges [OF assms st]
  have r: "cspan cR = chan_range R cb" "cspan cG = chan_range G cb" "cspan cB = chan_range B cb"
    by auto
  have "snd (span cb) = choose_axis cR cG cB"
    by (simp add: span_def st Let_def)
  also have "\<dots> = (if chan_range R cb \<le> chan_range B cb \<and> chan_range G cb \<le> chan_range B cb then blue
            else if chan_range R cb \<le> chan_range G cb then green
            else red)"
    unfolding choose_axis_def r by auto
  finally show ?thesis .
qed

theorem span_axis_choice_witness:
  "[\<lparr>p = 2, RGBA = \<lparr>R = 3, G = 0, B = 9, A = 255\<rparr>\<rparr>,
    \<lparr>p = 1, RGBA = \<lparr>R = 8, G = 5, B = 4, A = 255\<rparr>\<rparr>,
    \<lparr>p = 1, RGBA = \<lparr>R = 4, G = 2, B = 7, A = 255\<rparr>\<rparr>] \<noteq> []
   \<and> snd (span [\<lparr>p = 2, RGBA = \<lparr>R = 3, G = 0, B = 9, A = 255\<rparr>\<rparr>,
                \<lparr>p = 1, RGBA = \<lparr>R = 8, G = 5, B = 4, A = 255\<rparr>\<rparr>,
                \<lparr>p = 1, RGBA = \<lparr>R = 4, G = 2, B = 7, A = 255\<rparr>\<rparr>]) = blue"
  using span_axis_choice
    [of "[\<lparr>p = 2, RGBA = \<lparr>R = 3, G = 0, B = 9, A = 255\<rparr>\<rparr>,
          \<lparr>p = 1, RGBA = \<lparr>R = 8, G = 5, B = 4, A = 255\<rparr>\<rparr>,
          \<lparr>p = 1, RGBA = \<lparr>R = 4, G = 2, B = 7, A = 255\<rparr>\<rparr>]"]
  by (simp add: chan_range_def)

text \<open>
  The claim as the specification states it (priority R > G > B, red wins any tie it is
  part of) fails: in this bucket of three members red and green tie for the greatest
  range 10, blue has range 0, and \<open>span\<close> chooses green.
\<close>

theorem span_tie_counterexample:
  "chan_range R [\<lparr>p = 1, RGBA = \<lparr>R = 0, G = 0, B = 5, A = 255\<rparr>\<rparr>,
                 \<lparr>p = 1, RGBA = \<lparr>R = 10, G = 10, B = 5, A = 255\<rparr>\<rparr>,
                 \<lparr>p = 1, RGBA = \<lparr>R = 4, G = 7, B = 5, A = 255\<rparr>\<rparr>] = 10
   \<and> chan_range G [\<lparr>p = 1, RGBA = \<lparr>R = 0, G = 0, B = 5, A = 255\<rparr>\<rparr>,
                   \<lparr>p = 1, RGBA = \<lparr>R = 10, G = 10, B = 5, A = 255\<rparr>\<rparr>,
                   \<lparr>p = 1, RGBA = \<lparr>R = 4, G = 7, B = 5, A = 255\<rparr>\<rparr>] = 10
   \<and> chan_range B [\<lparr>p = 1, RGBA = \<lparr>R = 0, G = 0, B = 5, A = 255\<rparr>\<rparr>,
                   \<lparr>p = 1, RGBA = \<lparr>R = 10, G = 10, B = 5, A = 255\<rparr>\<rparr>,
                   \<lparr>p = 1, RGBA = \<lparr>R = 4, G = 7, B = 5, A = 255\<rparr>\<rparr>] = 0
   \<and> snd (span [\<lparr>p = 1, RGBA = \<lparr>R = 0, G = 0, B = 5, A = 255\<rparr>\<rparr>,
                \<lparr>p = 1, RGBA = \<lparr>R = 10, G = 10, B = 5, A = 255\<rparr>\<rparr>,
                \<lparr>p = 1, RGBA = \<lparr>R = 4, G = 7, B = 5, A = 255\<rparr>\<rparr>]) = green
   \<and> green \<noteq> red"
  by (simp add: chan_range_def span_def constraint0_def update_def Let_def choose_axis_def
        cspan_def)

section \<open>Partition\<close>

text \<open>
  What \<open>partition\<close> returns when it returns: the two parts are a rearrangement of the
  bucket and, for a bucket of at least two members, neither part is empty. This holds
  whatever pivot \<open>span\<close> has computed.
\<close>

lemma scan_left_Inr:
  "scan_left mn ax cb left = Inr l \<Longrightarrow>
     left \<le> l \<and> 0 \<le> l \<and> l < int (length cb) \<and> \<not> gt mn (RGBA (cb ! nat l)) ax"
proof (induction mn ax cb left rule: scan_left.induct)
  case (1 mn ax cb left)
  from "1.prems" have ok: "\<not> (left < 0 \<or> int (length cb) \<le> left)"
    by (subst (asm) scan_left.simps) (auto split: if_splits)
  show ?case
  proof (cases "gt mn (RGBA (cb ! nat left)) ax")
    case True
    with ok "1.prems" have "scan_left mn ax cb (left + 1) = Inr l"
      by (subst (asm) scan_left.simps) simp
    from "1.IH" [OF ok True this] show ?thesis by simp
  next
    case False
    with ok "1.prems" have "l = left"
      by (subst (asm) scan_left.simps) simp
    with ok False show ?thesis by simp
  qed
qed

lemma scan_right_Inr:
  "scan_right mn ax cb right = Inr r \<Longrightarrow>
     r \<le> right \<and> 0 \<le> r \<and> r < int (length cb) \<and> gt mn (RGBA (cb ! nat r)) ax"
proof (induction mn ax cb right rule: scan_right.induct)
  case (1 mn ax cb right)
  from "1.prems" have ok: "\<not> (right < 0 \<or> int (length cb) \<le> right)"
    by (subst (asm) scan_right.simps) (auto split: if_splits)
  show ?case
  proof (cases "gt mn (RGBA (cb ! nat right)) ax")
    case False
    with ok "1.prems" have "scan_right mn ax cb (right - 1) = Inr r"
      by (subst (asm) scan_right.simps) simp
    from "1.IH" [OF ok False this] show ?thesis by simp
  next
    case True
    with ok "1.prems" have "r = right"
      by (subst (asm) scan_right.simps) simp
    with ok True show ?thesis by simp
  qed
qed

lemma mset_swap_cb:
  assumes "0 \<le> l" "l < int (length cb)" "0 \<le> r" "r < int (length cb)"
  shows "mset (swap cb l r) = mset cb" and "length (swap cb l r) = length cb"
  using assms by (simp_all add: swap_def mset_swap)

lemma partition_loop_Inr:
  "partition_loop mn ax cb left right = Inr (cb', k) \<Longrightarrow>
     mset cb' = mset cb \<and> length cb' = length cb
     \<and> (if left < right then 0 < k \<and> k < int (length cb) else k = left)"
proof (induction mn ax cb left right rule: partition_loop.induct)
  case (1 mn ax cb left right)
  show ?case
  proof (cases "left < right")
    case False
    with "1.prems" show ?thesis
      by (subst (asm) partition_loop.simps) simp
  next
    case True
    from "1.prems" True obtain l r where
      l: "scan_left mn ax cb left = Inr l" and r: "scan_right mn ax cb right = Inr r"
      and rec: "partition_loop mn ax (swap cb l r) l r = Inr (cb', k)"
      by (subst (asm) partition_loop.simps) (auto split: sum.splits)
    note L = scan_left_Inr [OF l] and R = scan_right_Inr [OF r]
    from L R have sw: "mset (swap cb l r) = mset cb" "length (swap cb l r) = length cb"
      by (simp_all add: mset_swap_cb)
    from L R have "l \<noteq> r" by auto
    from "1.IH" [OF True l r rec]
    have ih: "mset cb' = mset cb" "length cb' = length cb"
      "if l < r then 0 < k \<and> k < int (length cb) else k = l"
      unfolding sw by simp_all
    have "0 < k \<and> k < int (length cb)"
    proof (cases "l < r")
      case True
      with ih(3) show ?thesis by simp
    next
      case False
      with ih(3) have "k = l" by simp
      moreover from False \<open>l \<noteq> r\<close> R have "0 < l" by simp
      ultimately show ?thesis using L by simp
    qed
    with ih True show ?thesis by simp
  qed
qed

lemma partition_Inr:
  assumes "partition cb = Inr (left, right)" and "2 \<le> length cb"
  shows "mset left + mset right = mset cb" and "left \<noteq> []" and "right \<noteq> []"
    and "length left + length right = length cb"
proof -
  obtain mn ax where sp: "span cb = (mn, ax)" by (cases "span cb") auto
  with assms(1) obtain cb' k where
    pl: "partition_loop mn ax cb 0 (int (length cb) - 1) = Inr (cb', k)"
    and lr: "left = take (nat k) cb'" "right = drop (nat k) cb'"
    by (auto simp: partition_def split: sum.splits)
  from assms(2) have "(0::int) < int (length cb) - 1" by simp
  with partition_loop_Inr [OF pl]
  have f: "mset cb' = mset cb" "length cb' = length cb" "0 < k" "k < int (length cb)"
    by simp_all
  have "mset left + mset right = mset (take (nat k) cb' @ drop (nat k) cb')"
    unfolding lr by (simp only: mset_append)
  also have "\<dots> = mset cb'" by (simp only: append_take_drop_id)
  finally show "mset left + mset right = mset cb" using f(1) by simp
  from f show "left \<noteq> []" "right \<noteq> []" unfolding lr by auto
  from f show "length left + length right = length cb" unfolding lr by simp
qed

section \<open>The bucket queue\<close>

text \<open>
  One step of the loop of \<open>bucketize\<close> rearranges the members, keeps non-empty buckets
  non-empty, adds at most one bucket and keeps every bucket of at most one member. The
  loop inherits this, and from a queue of non-empty buckets that hold \<open>n\<close> members in
  all it always comes to an end (with a result or with a panic of \<open>partition\<close>).
\<close>

lemma bucketize_step_Inr:
  assumes "bucketize_step buckets = Inr buckets'"
  shows "mset (concat buckets') = mset (concat buckets)"
    and "(\<forall>b \<in> set buckets. b \<noteq> []) \<longrightarrow> (\<forall>b \<in> set buckets'. b \<noteq> [])"
    and "length buckets \<le> length buckets'"
    and "length buckets' \<le> length buckets + 1"
    and "\<forall>b \<in> set buckets. length b < 2 \<longrightarrow> b \<in> set buckets'"
proof -
  from assms obtain bucket rest where br: "buckets = bucket # rest"
    by (cases buckets) (auto simp: bucketize_step_def)
  consider (short) "length bucket < 2" | (two) "length bucket = 2" | (long) "2 < length bucket"
    by linarith
  then have "mset (concat buckets') = mset (concat buckets)
    \<and> ((\<forall>b \<in> set buckets. b \<noteq> []) \<longrightarrow> (\<forall>b \<in> set buckets'. b \<noteq> []))
    \<and> length buckets \<le> length buckets' \<and> length buckets' \<le> length buckets + 1
    \<and> (\<forall>b \<in> set buckets. length b < 2 \<longrightarrow> b \<in> set buckets')"
  proof cases
    case short
    with assms br have "buckets' = rest @ [bucket]"
      by (simp add: bucketize_step_def)
    with br show ?thesis by auto
  next
    case two
    with assms br have b': "buckets' = rest @ [take 1 bucket, drop 1 bucket]"
      by (simp add: bucketize_step_def)
    have "mset (take 1 bucket) + mset (drop 1 bucket) = mset bucket"
      by (simp only: mset_append [symmetric] append_take_drop_id)
    with b' br two show ?thesis by auto
  next
    case long
    with assms br obtain left right where p: "partition bucket = Inr (left, right)"
      and b': "buckets' = rest @ [left, right]"
      by (auto simp: bucketize_step_def split: sum.splits)
    from long have "2 \<le> length bucket" by simp
    note P = partition_Inr [OF p this]
    from b' br long P show ?thesis by auto
  qed
  then show "mset (concat buckets') = mset (concat buckets)"
    and "(\<forall>b \<in> set buckets. b \<noteq> []) \<longrightarrow> (\<forall>b \<in> set buckets'. b \<noteq> [])"
    and "length buckets \<le> length buckets'"
    and "length buckets' \<le> length buckets + 1"
    and "\<forall>b \<in> set buckets. length b < 2 \<longrightarrow> b \<in> set buckets'"
    by blast+
qed

lemma bucketize_loop_Inr_aux:
  assumes "bucketize_loop num n buckets = Some r"
  shows "\<forall>out. r = Inr out \<longrightarrow>
        mset (concat out) = mset (concat buckets)
      \<and> ((\<forall>b \<in> set buckets. b \<noteq> []) \<longrightarrow> (\<forall>b \<in> set out. b \<noteq> []))
      \<and> \<not> (int (length out) < num \<and> length out < n)
      \<and> int (length out) \<le> max num (int (length buckets))
      \<and> (\<forall>b \<in> set buckets. length b < 2 \<longrightarrow> b \<in> set out)"
proof (rule bucketize_loop.raw_induct
    [where P = "\<lambda>num n buckets r. \<forall>out. r = Inr out \<longrightarrow>
        mset (concat out) = mset (concat buckets)
      \<and> ((\<forall>b \<in> set buckets. b \<noteq> []) \<longrightarrow> (\<forall>b \<in> set out. b \<noteq> []))
      \<and> \<not> (int (length out) < num \<and> length out < n)
      \<and> int (length out) \<le> max num (int (length buckets))
      \<and> (\<forall>b \<in> set buckets. length b < 2 \<longrightarrow> b \<in> set out)", OF _ assms])
  fix loop :: "int \<Rightarrow> nat \<Rightarrow> colorBucket list \<Rightarrow> (panic + colorBucket list) option"
  fix num n buckets r
  assume IH: "\<And>num n buckets r. loop num n buckets = Some r
      \<Longrightarrow> \<forall>out. r = Inr out \<longrightarrow>
        mset (concat out) = mset (concat buckets)
      \<and> ((\<forall>b \<in> set buckets. b \<noteq> []) \<longrightarrow> (\<forall>b \<in> set out. b \<noteq> []))
      \<and> \<not> (int (length out) < num \<and> length out < n)
      \<and> int (length out) \<le> max num (int (length buckets))
      \<and> (\<forall>b \<in> set buckets. length b < 2 \<longrightarrow> b \<in> set out)"
  assume body: "(if int (length buckets) < num \<and> length buckets < n
      then case bucketize_step buckets of Inl e \<Rightarrow> Some (Inl e)
           | Inr buckets' \<Rightarrow> loop num n buckets'
      else Some (Inr buckets)) = Some r"
  show "\<forall>out. r = Inr out \<longrightarrow>
        mset (concat out) = mset (concat buckets)
      \<and> ((\<forall>b \<in> set buckets. b \<noteq> []) \<longrightarrow> (\<forall>b \<in> set out. b \<noteq> []))
      \<and> \<not> (int (length out) < num \<and> length out < n)
      \<and> int (length out) \<le> max num (int (length buckets))
      \<and> (\<forall>b \<in> set buckets. length b < 2 \<longrightarrow> b \<in> set out)"
  proof (intro allI impI)
    fix out assume r: "r = Inr out"
    show "mset (concat out) = mset (concat buckets)
      \<and> ((\<forall>b \<in> set buckets. b \<noteq> []) \<longrightarrow> (\<forall>b \<in> set out. b \<noteq> []))
      \<and> \<not> (int (length out) < num \<and> length out < n)
      \<and> int (length out) \<le> max num (int (length buckets))
      \<and> (\<forall>b \<in> set buckets. length b < 2 \<longrightarrow> b \<in> set out)"
    proof (cases "int (length buckets) < num \<and> length buckets < n")
      case False
      with body r have "out = buckets" by simp
      with False show ?thesis by auto
    next
      case True
      with body obtain buckets' where st: "bucketize_step buckets = Inr buckets'"
        and rec: "loop num n buckets' = Some r"
        by (auto simp: r split: sum.splits)
      note S = bucketize_step_Inr [OF st]
      from IH [OF rec] r
      have ih: "mset (concat out) = mset (concat buckets')"
        "(\<forall>b \<in> set buckets'. b \<noteq> []) \<longrightarrow> (\<forall>b \<in> set out. b \<noteq> [])"
        "\<not> (int (length out) < num \<and> length out < n)"
        "int (length out) \<le> max num (int (length buckets'))"
        "\<forall>b \<in> set buckets'. length b < 2 \<longrightarrow> b \<in> set out"
        by blast+
      from ih(1) S(1) have "mset (concat out) = mset (concat buckets)" by simp
      moreover from ih(2) S(2)
      have "(\<forall>b \<in> set buckets. b \<noteq> []) \<longrightarrow> (\<forall>b \<in> set out. b \<noteq> [])"
        by blast
      moreover from ih(4) S(4) True have "int (length out) \<le> max num (int (length buckets))"
        by linarith
      moreover from ih(5) S(5) have "\<forall>b \<in> set buckets. length b < 2 \<longrightarrow> b \<in> set out"
        by blast
      ultimately show ?thesis using ih(3) by blast
    qed
  qed
qed

lemma bucketize_loop_Inr:
  assumes "bucketize_loop num n buckets = Some (Inr out)"
  shows "mset (concat out) = mset (concat buckets)"
    and "(\<forall>b \<in> set buckets. b \<noteq> []) \<longrightarrow> (\<forall>b \<in> set out. b \<noteq> [])"
    and "\<not> (int (length out) < num \<and> length out < n)"
    and "int (length out) \<le> max num (int (length buckets))"
    and "\<forall>b \<in> set buckets. length b < 2 \<longrightarrow> b \<in> set out"
  using bucketize_loop_Inr_aux [OF assms] by blast+

lemma short_sum:
  "\<forall>b \<in> set bs. length b < 2 \<Longrightarrow> sum_list (map length bs) \<le> length bs"
  by (induction bs) auto

lemma bucketize_loop_total:
  assumes "\<forall>b \<in> set buckets. b \<noteq> []" and "sum_list (map length buckets) = n"
  shows "\<exists>r. bucketize_loop num n buckets = Some r"
  using assms
proof (induction "(n - length buckets) * (n + 1)
                  + length (takeWhile (\<lambda>b. length b < 2) buckets)"
       arbitrary: buckets rule: less_induct)
  case less
  let ?short = "\<lambda>b :: colorBucket. length b < 2"
  show ?case
  proof (cases "int (length buckets) < num \<and> length buckets < n")
    case False
    then show ?thesis by (subst bucketize_loop.simps) auto
  next
    case True
    with less.prems(2) obtain b rest where br: "buckets = b # rest"
      by (cases buckets) auto
    have step: "\<exists>r. bucketize_loop num n buckets' = Some r"
      if st: "bucketize_step buckets = Inr buckets'" for buckets'
    proof -
      note S = bucketize_step_Inr [OF st]
      from S(2) less.prems(1) have ne': "\<forall>b \<in> set buckets'. b \<noteq> []" by blast
      from S(1) have "size (mset (concat buckets')) = size (mset (concat buckets))"
        by simp
      then have sum': "sum_list (map length buckets') = n"
        using less.prems(2) by (simp add: length_concat)
      have "(n - length buckets') * (n + 1) + length (takeWhile ?short buckets')
            < (n - length buckets) * (n + 1) + length (takeWhile ?short buckets)"
      proof (cases "length b < 2")
        case True
        with st br have b': "buckets' = rest @ [b]"
          by (simp add: bucketize_step_def)
        have "\<not> (\<forall>x \<in> set rest. ?short x)"
        proof
          assume "\<forall>x \<in> set rest. ?short x"
          with True br have "\<forall>x \<in> set buckets. ?short x" by simp
          from short_sum [OF this] less.prems(2) \<open>int (length buckets) < num \<and> length buckets < n\<close>
          show False by simp
        qed
        then obtain x where "x \<in> set rest" "\<not> ?short x" by blast
        then have "takeWhile ?short (rest @ [b]) = takeWhile ?short rest"
          by (rule takeWhile_append1)
        with True br b' show ?thesis by simp
      next
        case False
        with st br have len': "length buckets' = length buckets + 1"
          by (auto simp: bucketize_step_def split: if_splits sum.splits)
        from True obtain k where k: "n - length buckets = Suc k"
          by (cases "n - length buckets") auto
        with len' have k': "n - length buckets' = k" by simp
        have "length (takeWhile ?short buckets') \<le> length buckets'"
          by (rule length_takeWhile_le)
        also have "\<dots> \<le> n" using len' True by simp
        finally have "length (takeWhile ?short buckets') \<le> n" .
        then show ?thesis unfolding k k' by simp
      qed
      from less.hyps [OF this ne' sum'] show ?thesis .
    qed
    show ?thesis
    proof (cases "bucketize_step buckets")
      case (Inl e)
      with True show ?thesis by (subst bucketize_loop.simps) auto
    next
      case (Inr buckets')
      from step [OF Inr] obtain r where "bucketize_loop num n buckets' = Some r" ..
      with True Inr show ?thesis by (subst bucketize_loop.simps) auto
    qed
  qed
qed

section \<open>bucketize\<close>

lemma bucketize_total: "\<exists>r. bucketize colors num = Some r"
proof (cases "length colors = 0 \<or> num = 0")
  case True
  then have "bucketize colors num = Some (Inr [])" by (simp add: bucketize_def)
  then show ?thesis ..
next
  case False
  note nz = this
  show ?thesis
  proof (cases "num * 2 < 1")
    case True
    with nz have "bucketize colors num = Some (Inl MakeSliceOutOfRange)"
      by (simp add: bucketize_def)
    then show ?thesis ..
  next
    case False
    with nz have eq: "bucketize colors num = bucketize_loop num (length colors) [colors]"
      by (simp add: bucketize_def)
    from nz have "\<forall>b \<in> set [colors]. b \<noteq> []" "sum_list (map length [colors]) = length colors"
      by simp_all
    from bucketize_loop_total [OF this, of num] show ?thesis
      by (simp only: eq)
  qed
qed

lemma bucketize_loop_pos:
  assumes "bucketize colors num = Some (Inr out)" and "colors \<noteq> []" and "num \<noteq> 0"
  shows "0 < num \<and> bucketize_loop num (length colors) [colors] = Some (Inr out)"
proof -
  have pos: "\<not> num * 2 < 1"
  proof
    assume "num * 2 < 1"
    with assms(2,3) have "bucketize colors num = Some (Inl MakeSliceOutOfRange)"
      by (simp add: bucketize_def)
    with assms(1) show False by simp
  qed
  with assms(2,3) have "bucketize colors num = bucketize_loop num (length colors) [colors]"
    by (simp add: bucketize_def)
  with assms(1) pos show ?thesis by simp
qed

lemma bucketize_empty:
  assumes "bucketize colors num = Some (Inr out)" and "colors = [] \<or> num = 0"
  shows "out = []"
proof -
  from assms(2) have "bucketize colors num = Some (Inr [])" by (auto simp: bucketize_def)
  with assms(1) show ?thesis by simp
qed

lemma bucketize_nonempty:
  assumes "bucketize colors num = Some (Inr out)"
  shows "\<forall>b \<in> set out. b \<noteq> []"
proof (cases "colors = [] \<or> num = 0")
  case True
  from bucketize_empty [OF assms True] show ?thesis by simp
next
  case False
  then have "colors \<noteq> []" "num \<noteq> 0" by simp_all
  from bucketize_loop_pos [OF assms this]
  have loop: "bucketize_loop num (length colors) [colors] = Some (Inr out)" by simp
  from bucketize_loop_Inr(2) [OF loop] \<open>colors \<noteq> []\<close> show ?thesis by simp
qed

lemma bucketize_length:
  assumes "bucketize colors num = Some (Inr out)"
  shows "int (length out) \<le> max num 0"
proof (cases "colors = [] \<or> num = 0")
  case True
  from bucketize_empty [OF assms True] show ?thesis by simp
next
  case False
  then have "colors \<noteq> []" "num \<noteq> 0" by simp_all
  from bucketize_loop_pos [OF assms this]
  have pos: "0 < num"
    and loop: "bucketize_loop num (length colors) [colors] = Some (Inr out)" by simp_all
  from bucketize_loop_Inr(4) [OF loop] have "int (length out) \<le> max num 1" by simp
  with pos show ?thesis by linarith
qed

lemma bucketize_covers:
  assumes "bucketize colors num = Some (Inr out)" and "colors \<noteq> []" and "0 < num"
  shows "mset (concat out) = mset colors" and "out \<noteq> []"
    and "\<not> (int (length out) < num \<and> length out < length colors)"
proof -
  from assms(3) have "num \<noteq> 0" by simp
  from bucketize_loop_pos [OF assms(1,2) this]
  have loop: "bucketize_loop num (length colors) [colors] = Some (Inr out)" by simp
  from bucketize_loop_Inr(1) [OF loop] show ms: "mset (concat out) = mset colors" by simp
  show "out \<noteq> []"
  proof
    assume "out = []"
    with ms have "mset colors = {#}" by simp
    with assms(2) show False by simp
  qed
  from bucketize_loop_Inr(3) [OF loop]
  show "\<not> (int (length out) < num \<and> length out < length colors)" .
qed

text \<open>The equations that evaluate the model on a concrete input.\<close>

lemmas eval_simps = bucketize_def bucketize_loop.simps bucketize_step_def partition_def
  span_def constraint0_def update_def Let_def choose_axis_def cspan_def toCount_def
  count_loop.simps partition_loop.simps scan_left.simps scan_right.simps swap_def
  nth_Cons' list_update_code

text \<open>
  Claim C6. For every non-empty list of aggregated colors and every positive target
  count, \<open>bucketize\<close> comes to an end (it cannot loop for ever), and when it delivers
  buckets there is at least one and every delivered bucket has at least one member.
\<close>

theorem bucketize_buckets_nonempty:
  assumes "colors \<noteq> []" and "0 < num"
  shows "bucketize colors num \<noteq> None
       \<and> (bucketize colors num = Some (Inr out) \<longrightarrow> out \<noteq> [] \<and> (\<forall>b \<in> set out. b \<noteq> []))"
proof -
  from bucketize_total [of colors num] have "bucketize colors num \<noteq> None" by auto
  moreover have "out \<noteq> [] \<and> (\<forall>b \<in> set out. b \<noteq> [])"
    if r: "bucketize colors num = Some (Inr out)"
    using bucketize_nonempty [OF r] bucketize_covers(2) [OF r assms] by simp
  ultimately show ?thesis by blast
qed

theorem bucketize_buckets_nonempty_witness:
  "[\<lparr>p = 3, RGBA = \<lparr>R = 1, G = 0, B = 0, A = 255\<rparr>\<rparr>,
    \<lparr>p = 1, RGBA = \<lparr>R = 4, G = 2, B = 0, A = 255\<rparr>\<rparr>,
    \<lparr>p = 2, RGBA = \<lparr>R = 2, G = 1, B = 3, A = 255\<rparr>\<rparr>,
    \<lparr>p = 1, RGBA = \<lparr>R = 0, G = 1, B = 1, A = 255\<rparr>\<rparr>] \<noteq> []
   \<and> (0::int) < 3
   \<and> bucketize [\<lparr>p = 3, RGBA = \<lparr>R = 1, G = 0, B = 0, A = 255\<rparr>\<rparr>,
                \<lparr>p = 1, RGBA = \<lparr>R = 4, G = 2, B = 0, A = 255\<rparr>\<rparr>,
                \<lparr>p = 2, RGBA = \<lparr>R = 2, G = 1, B = 3, A = 255\<rparr>\<rparr>,
                \<lparr>p = 1, RGBA = \<lparr>R = 0, G = 1, B = 1, A = 255\<rparr>\<rparr>] 3
       = Some (Inr [[\<lparr>p = 1, RGBA = \<lparr>R = 0, G = 1, B = 1, A = 255\<rparr>\<rparr>,
                     \<lparr>p = 1, RGBA = \<lparr>R = 4, G = 2, B = 0, A = 255\<rparr>\<rparr>],
                    [\<lparr>p = 3, RGBA = \<lparr>R = 1, G = 0, B = 0, A = 255\<rparr>\<rparr>],
                    [\<lparr>p = 2, RGBA = \<lparr>R = 2, G = 1, B = 3, A = 255\<rparr>\<rparr>]])
   \<and> [] \<notin> set [[\<lparr>p = 1, RGBA = \<lparr>R = 0, G = 1, B = 1, A = 255\<rparr>\<rparr>,
                   \<lparr>p = 1, RGBA = \<lparr>R = 4, G = 2, B = 0, A = 255\<rparr>\<rparr>],
                  [\<lparr>p = 3, RGBA = \<lparr>R = 1, G = 0, B = 0, A = 255\<rparr>\<rparr>],
                  [\<lparr>p = 2, RGBA = \<lparr>R = 2, G = 1, B = 3, A = 255\<rparr>\<rparr>]]"
  using bucketize_buckets_nonempty
    [of "[\<lparr>p = 3, RGBA = \<lparr>R = 1, G = 0, B = 0, A = 255\<rparr>\<rparr>,
          \<lparr>p = 1, RGBA = \<lparr>R = 4, G = 2, B = 0, A = 255\<rparr>\<rparr>,
          \<lparr>p = 2, RGBA = \<lparr>R = 2, G = 1, B = 3, A = 255\<rparr>\<rparr>,
          \<lparr>p = 1, RGBA = \<lparr>R = 0, G = 1, B = 1, A = 255\<rparr>\<rparr>]" 3
        "[[\<lparr>p = 1, RGBA = \<lparr>R = 0, G = 1, B = 1, A = 255\<rparr>\<rparr>,
           \<lparr>p = 1, RGBA = \<lparr>R = 4, G = 2, B = 0, A = 255\<rparr>\<rparr>],
          [\<lparr>p = 3, RGBA = \<lparr>R = 1, G = 0, B = 0, A = 255\<rparr>\<rparr>],
          [\<lparr>p = 2, RGBA = \<lparr>R = 2, G = 1, B = 3, A = 255\<rparr>\<rparr>]]"]
  by (simp add: eval_simps)

text \<open>
  Claim C8. In \<open>bucketize\<close> a dequeued bucket with at most one member is not split: the
  step enqueues it again as it is (same members, same weights), and every such bucket
  that is in the queue at some time is, unchanged, among the buckets that the loop
  delivers.
\<close>

theorem bucketize_singleton_requeued:
  assumes "length bucket < 2"
  shows "bucketize_step (bucket # rest) = Inr (rest @ [bucket])
       \<and> (bucket \<in> set buckets \<and> bucketize_loop num n buckets = Some (Inr out)
            \<longrightarrow> bucket \<in> set out)"
proof -
  from assms have "bucketize_step (bucket # rest) = Inr (rest @ [bucket])"
    by (simp add: bucketize_step_def)
  moreover have "bucket \<in> set out"
    if "bucket \<in> set buckets" and r: "bucketize_loop num n buckets = Some (Inr out)"
    using bucketize_loop_Inr(5) [OF r] that(1) assms by blast
  ultimately show ?thesis by blast
qed

theorem bucketize_singleton_requeued_witness:
  "length [\<lparr>p = 3, RGBA = \<lparr>R = 1, G = 0, B = 0, A = 255\<rparr>\<rparr>] < 2
   \<and> bucketize_step ([\<lparr>p = 3, RGBA = \<lparr>R = 1, G = 0, B = 0, A = 255\<rparr>\<rparr>]
        # [[\<lparr>p = 1, RGBA = \<lparr>R = 4, G = 2, B = 0, A = 255\<rparr>\<rparr>,
            \<lparr>p = 2, RGBA = \<lparr>R = 2, G = 1, B = 3, A = 255\<rparr>\<rparr>]])
       = Inr ([[\<lparr>p = 1, RGBA = \<lparr>R = 4, G = 2, B = 0, A = 255\<rparr>\<rparr>,
                \<lparr>p = 2, RGBA = \<lparr>R = 2, G = 1, B = 3, A = 255\<rparr>\<rparr>]]
              @ [[\<lparr>p = 3, RGBA = \<lparr>R = 1, G = 0, B = 0, A = 255\<rparr>\<rparr>]])
   \<and> bucketize_loop 3 3 [[\<lparr>p = 3, RGBA = \<lparr>R = 1, G = 0, B = 0, A = 255\<rparr>\<rparr>],
                          [\<lparr>p = 1, RGBA = \<lparr>R = 4, G = 2, B = 0, A = 255\<rparr>\<rparr>,
                           \<lparr>p = 2, RGBA = \<lparr>R = 2, G = 1, B = 3, A = 255\<rparr>\<rparr>]]
       = Some (Inr [[\<lparr>p = 3, RGBA = \<lparr>R = 1, G = 0, B = 0, A = 255\<rparr>\<rparr>],
                    [\<lparr>p = 1, RGBA = \<lparr>R = 4, G = 2, B = 0, A = 255\<rparr>\<rparr>],
                    [\<lparr>p = 2, RGBA = \<lparr>R = 2, G = 1, B = 3, A = 255\<rparr>\<rparr>]])
   \<and> [\<lparr>p = 3, RGBA = \<lparr>R = 1, G = 0, B = 0, A = 255\<rparr>\<rparr>]
       \<in> set [[\<lparr>p = 3, RGBA = \<lparr>R = 1, G = 0, B = 0, A = 255\<rparr>\<rparr>],
               [\<lparr>p = 1, RGBA = \<lparr>R = 4, G = 2, B = 0, A = 255\<rparr>\<rparr>],
               [\<lparr>p = 2, RGBA = \<lparr>R = 2, G = 1, B = 3, A = 255\<rparr>\<rparr>]]"
  using bucketize_singleton_requeued
    [of "[\<lparr>p = 3, RGBA = \<lparr>R = 1, G = 0, B = 0, A = 255\<rparr>\<rparr>]"
        "[[\<lparr>p = 1, RGBA = \<lparr>R = 4, G = 2, B = 0, A = 255\<rparr>\<rparr>,
           \<lparr>p = 2, RGBA = \<lparr>R = 2, G = 1, B = 3, A = 255\<rparr>\<rparr>]]"
        "[[\<lparr>p = 3, RGBA = \<lparr>R = 1, G = 0, B = 0, A = 255\<rparr>\<rparr>],
          [\<lparr>p = 1, RGBA = \<lparr>R = 4, G = 2, B = 0, A = 255\<rparr>\<rparr>,
           \<lparr>p = 2, RGBA = \<lparr>R = 2, G = 1, B = 3, A = 255\<rparr>\<rparr>]]"
        3 3
        "[[\<lparr>p = 3, RGBA = \<lparr>R = 1, G = 0, B = 0, A = 255\<rparr>\<rparr>],
          [\<lparr>p = 1, RGBA = \<lparr>R = 4, G = 2, B = 0, A = 255\<rparr>\<rparr>],
          [\<lparr>p = 2, RGBA = \<lparr>R = 2, G = 1, B = 3, A = 255\<rparr>\<rparr>]]"]
  by (simp add: eval_simps)

section \<open>Aggregation and the returned palette\<close>

lemma wrap64_id: "- (2 ^ 63) \<le> x \<Longrightarrow> x < 2 ^ 63 \<Longrightarrow> wrap64 x = x"
  by (simp add: wrap64_def)

lemma wrap64_small:
  "- 9223372036854775808 \<le> x \<Longrightarrow> x < 9223372036854775808 \<Longrightarrow> wrap64 x = x"
  by (rule wrap64_id) simp_all

lemma ucast_u8_u32_0: "(ucast (a :: u8) :: u32) = 0 \<longleftrightarrow> a = 0"
proof
  assume "(ucast a :: u32) = 0"
  then have "uint (ucast a :: u32) = 0" by simp
  moreover have "uint (ucast a :: u32) = uint a"
    by (rule uint_up_ucast) (simp add: is_up)
  ultimately have "uint a = uint (0 :: u8)" by simp
  then show "a = 0" by (rule word_uint_eqI)
qed simp

lemma RGBA_alpha_0: "RGBA_alpha c = 0 \<longleftrightarrow> A c = 0"
  by (auto simp: RGBA_alpha_def or_eq_0_iff ucast_u8_u32_0)

lemma addTransparent_fold:
  "fold (\<lambda>c t. if RGBA_alpha c = 0 then False else t) cs t
     = (t \<and> (\<forall>c \<in> set cs. A c \<noteq> 0))"
  by (induction cs arbitrary: t) (auto simp: RGBA_alpha_0)

lemma quantizeSlice_Nil:
  "quantizeSlice q pal [] =
     Some (Inr (elems pal @ (if AddTransparent q \<and> (\<forall>c \<in> set (elems pal). A c \<noteq> 0)
                               then [transparent] else [])))"
  by (simp add: quantizeSlice_def Let_def bucketize_def addTransparent_fold)

lemma getBucket_Inr:
  assumes "snd (getBucket pool val c) = Inr s"
  shows "contents s = replicate (nat c) zeroColorPriority" and "0 \<le> c"
  using assms
  by (auto simp: getBucket_def Let_def make_slice_def reslice_clear_def contents_def
      split: option.splits if_splits)

lemma getBucket_returns:
  assumes "0 \<le> c"
  shows "\<exists>s. snd (getBucket pool val c) = Inr s"
  using assms getBucket_maxCap_ge [of c pool val]
  by (auto simp: getBucket_def Let_def make_slice_def reslice_clear_def
      split: option.splits if_splits)

lemma bounds_loop_le:
  "bounds_loop ms (lx, gx, ly, gy) = (lx', gx', ly', gy') \<Longrightarrow>
     lx' \<le> lx \<and> gx \<le> gx' \<and> ly' \<le> ly \<and> gy \<le> gy'
     \<and> (\<forall>m \<in> set ms. lx' \<le> minX m \<and> maxX m \<le> gx' \<and> ly' \<le> minY m \<and> maxY m \<le> gy')"
proof (induction ms arbitrary: lx gx ly gy)
  case Nil
  then show ?case by simp
next
  case (Cons m ms)
  from Cons.prems
  have "bounds_loop ms
       (if minX m < lx then minX m else lx, if maxX m > gx then maxX m else gx,
        if minY m < ly then minY m else ly, if maxY m > gy then maxY m else gy)
       = (lx', gx', ly', gy')"
    by simp
  from Cons.IH [OF this] show ?case
    by (auto split: if_splits)
qed

lemma scan_pixels_zero:
  assumes "Weighting q = Some f" and "\<forall>xy \<in> set ps. f m (fst xy) (snd xy) = 0"
  shows "scan_pixels q m sz ps tbl = Some (Inr tbl)"
  using assms(2)
proof (induction ps)
  case Nil
  show ?case by simp
next
  case (Cons xy ps)
  obtain x y where xy: "xy = (x, y)" by (cases xy)
  with Cons.prems have "f m x y = 0" by simp
  moreover from Cons have "scan_pixels q m sz ps tbl = Some (Inr tbl)" by simp
  ultimately show ?case by (simp add: xy assms(1))
qed

lemma scan_images_zero:
  assumes "Weighting q = Some f"
    and "\<forall>m \<in> set ms. \<forall>xy \<in> set (pixels m). f m (fst xy) (snd xy) = 0"
  shows "scan_images q sz ms tbl = Some (Inr tbl)"
  using assms(2)
proof (induction ms)
  case Nil
  show ?case by simp
next
  case (Cons m ms)
  from Cons.prems have "\<forall>xy \<in> set (pixels m). f m (fst xy) (snd xy) = 0" by simp
  from scan_pixels_zero [OF assms(1) this]
  have "scan_pixels q m sz (pixels m) tbl = Some (Inr tbl)" .
  moreover from Cons have "scan_images q sz ms tbl = Some (Inr tbl)" by simp
  ultimately show ?case by simp
qed

lemma compact_zero: "\<forall>e \<in> set tbl. p e = 0 \<Longrightarrow> compact ycc isY tbl = []"
  by (simp add: compact_def filter_empty_conv)

lemma buildBucketMultiple_zero:
  assumes "Weighting q = Some f"
    and "\<forall>m \<in> set ms. \<forall>xy \<in> set (pixels m). f m (fst xy) (snd xy) = 0"
    and "0 \<le> table_size ms"
  shows "snd (buildBucketMultiple q ycc pool val ms) = Some (Inr [])"
proof (cases "ms = []")
  case True
  then show ?thesis by (simp add: buildBucketMultiple_def)
next
  case False
  obtain lx gx ly gy where b: "bounds_loop ms (MaxInt32, 0, MaxInt32, 0) = (lx, gx, ly, gy)"
    by (cases "bounds_loop ms (MaxInt32, 0, MaxInt32, 0)") auto
  let ?sz = "wrap64 (wrap64 (wrap64 (gx - lx) * wrap64 (gy - ly)) * 2)"
  from assms(3) b have "0 \<le> ?sz" by (simp add: table_size_def)
  from getBucket_returns [OF this] obtain s where s: "snd (getBucket pool val ?sz) = Inr s"
    by blast
  then obtain pool' where g: "getBucket pool val ?sz = (pool', Inr s)"
    by (cases "getBucket pool val ?sz") auto
  from getBucket_Inr(1) [OF s]
  have z: "\<forall>e \<in> set (contents s). p e = 0" by (simp add: zeroColorPriority_def)
  from scan_images_zero [OF assms(1,2)]
  have "scan_images q ?sz ms (contents s) = Some (Inr (contents s))" .
  with False b g compact_zero [OF z] show ?thesis
    by (simp add: buildBucketMultiple_def Let_def)
qed

text \<open>
  The table size is not negative, and is twice the area of the bounding box, for images
  with well-formed bounds when twice the area is below \<open>2^63\<close>.
\<close>

lemma bbox_nonneg:
  assumes "ms \<noteq> []" and "\<forall>m \<in> set ms. minX m \<le> maxX m \<and> minY m \<le> maxY m"
    and "bounds_loop ms (lx, gx, ly, gy) = (lx', gx', ly', gy')"
  shows "0 \<le> gx' - lx'" and "0 \<le> gy' - ly'"
proof -
  from assms(1) obtain m where m: "m \<in> set ms" by (cases ms) auto
  from bounds_loop_le [OF assms(3)] m
  have "lx' \<le> minX m" "maxX m \<le> gx'" "ly' \<le> minY m" "maxY m \<le> gy'" by auto
  with assms(2) m show "0 \<le> gx' - lx'" "0 \<le> gy' - ly'" by fastforce+
qed

lemma table_size_exact:
  assumes "0 \<le> a" and "0 \<le> b" and "2 * (a * b) < 2 ^ 63"
  shows "wrap64 (wrap64 (wrap64 a * wrap64 b) * 2) = a * b * 2"
proof (cases "a = 0 \<or> b = 0")
  case True
  then show ?thesis by (auto simp: wrap64_def)
next
  case False
  with assms(1,2) have pos: "1 \<le> a" "1 \<le> b" by auto
  from pos assms(1) have "a * 1 \<le> a * b" by (intro mult_left_mono) simp_all
  moreover from pos assms(2) have "1 * b \<le> a * b" by (intro mult_right_mono) simp_all
  moreover from assms have ab: "0 \<le> a * b" by simp
  ultimately have small: "a < 2 ^ 63" "b < 2 ^ 63" "a * b < 2 ^ 63"
    using assms(3) by simp_all
  from assms(1) small(1) have wa: "wrap64 a = a" by (intro wrap64_id) simp_all
  from assms(2) small(2) have wb: "wrap64 b = b" by (intro wrap64_id) simp_all
  from ab small(3) have wab: "wrap64 (a * b) = a * b" by (intro wrap64_id) simp_all
  from ab assms(3) have "wrap64 (a * b * 2) = a * b * 2" by (intro wrap64_id) simp_all
  then show ?thesis by (simp only: wa wb wab)
qed

lemma table_size_bbox:
  assumes "ms \<noteq> []" and "\<forall>m \<in> set ms. minX m \<le> maxX m \<and> minY m \<le> maxY m"
    and "2 * bbox_area ms < 2 ^ 63"
  shows "table_size ms = 2 * bbox_area ms" and "0 \<le> table_size ms"
proof -
  obtain lx gx ly gy where b: "bounds_loop ms (MaxInt32, 0, MaxInt32, 0) = (lx, gx, ly, gy)"
    by (cases "bounds_loop ms (MaxInt32, 0, MaxInt32, 0)") auto
  from bbox_nonneg [OF assms(1,2) b] have nn: "0 \<le> gx - lx" "0 \<le> gy - ly" .
  from assms(3) b have "2 * ((gx - lx) * (gy - ly)) < 2 ^ 63" by (simp add: bbox_area_def)
  from table_size_exact [OF nn this] b
  show eq: "table_size ms = 2 * bbox_area ms" by (simp add: table_size_def bbox_area_def)
  from nn have "0 \<le> (gx - lx) * (gy - ly)" by simp
  with b eq show "0 \<le> table_size ms" by (simp add: bbox_area_def)
qed

text \<open>With a negative table size, \<open>getBucket\<close> panics and no color list is returned.\<close>

lemma getBucket_negative: "c < 0 \<Longrightarrow> \<exists>e. snd (getBucket pool val c) = Inl e"
  by (auto simp: getBucket_def Let_def make_slice_def reslice_clear_def split: option.splits)

lemma negative_table_size_panics:
  assumes "ms \<noteq> []" and "table_size ms < 0"
  shows "\<exists>e. snd (buildBucketMultiple q ycc pool val ms) = Some (Inl e)"
proof -
  obtain lx gx ly gy where b: "bounds_loop ms (MaxInt32, 0, MaxInt32, 0) = (lx, gx, ly, gy)"
    by (cases "bounds_loop ms (MaxInt32, 0, MaxInt32, 0)") auto
  let ?sz = "wrap64 (wrap64 (wrap64 (gx - lx) * wrap64 (gy - ly)) * 2)"
  from assms(2) b have "?sz < 0" by (simp add: table_size_def)
  from getBucket_negative [OF this] obtain e where "snd (getBucket pool val ?sz) = Inl e"
    by blast
  then obtain pool' where g: "getBucket pool val ?sz = (pool', Inl e)"
    by (cases "getBucket pool val ?sz") auto
  from assms(1) have "\<not> length ms < 1" by (cases ms) auto
  with b g have "snd (buildBucketMultiple q ycc pool val ms) = Some (Inl e)"
    by (simp add: buildBucketMultiple_def Let_def)
  then show ?thesis ..
qed

lemma pixels_empty: "maxX m \<le> minX m \<or> maxY m \<le> minY m \<Longrightarrow> pixels m = []"
  by (auto simp: pixels_def)

text \<open>
  Claim C7, as amended. If the weighting function returns 0 for every pixel of every
  image and the table size that \<open>buildBucketMultiple\<close> computes (twice the area of the
  bounding box, in wrapping 64-bit arithmetic) is not negative, then the aggregated
  color list is empty and the palette returned by \<open>QuantizeMultiple\<close> (so by \<open>Quantize\<close>,
  its one-image case) is the caller's prefix unchanged, followed by one transparent
  entry exactly when a transparent entry is requested and no entry of the prefix is
  fully transparent. The table size is not negative whenever the images have
  well-formed bounds and twice the area of the box is below \<open>2^63\<close> (\<open>table_size_bbox\<close>);
  when it is negative the call panics (\<open>negative_table_size_panics\<close>).
\<close>

theorem zero_weights_keep_prefix:
  assumes "Weighting q = Some f"
    and "\<forall>m \<in> set ms. \<forall>xy \<in> set (pixels m). f m (fst xy) (snd xy) = 0"
    and "0 \<le> table_size ms"
  shows "snd (buildBucketMultiple q ycc pool val ms) = Some (Inr [])
       \<and> snd (QuantizeMultiple q ycc pool val pal ms)
           = Some (Inr (elems pal @ (if AddTransparent q \<and> (\<forall>c \<in> set (elems pal). A c \<noteq> 0)
                                     then [transparent] else [])))"
proof -
  from buildBucketMultiple_zero [OF assms]
  have b: "snd (buildBucketMultiple q ycc pool val ms) = Some (Inr [])" .
  then obtain pool' where "buildBucketMultiple q ycc pool val ms = (pool', Some (Inr []))"
    by (cases "buildBucketMultiple q ycc pool val ms") auto
  then have "snd (QuantizeMultiple q ycc pool val pal ms) = quantizeSlice q pal []"
    by (simp add: QuantizeMultiple_def)
  with b show ?thesis by (simp only: quantizeSlice_Nil)
qed

theorem zero_weights_keep_prefix_witness:
  "Weighting \<lparr>Aggregation = Mean, Weighting = Some (\<lambda>m x y. 0), AddTransparent = True\<rparr> = Some (\<lambda>m x y. 0)
   \<and> pixels \<lparr>minX = 2, minY = 3, maxX = 4, maxY = 4, isYCbCr = False,
             colorAt = (\<lambda>x y. \<lparr>R = 9, G = 9, B = 9, A = 255\<rparr>)\<rparr> = [(2, 3), (3, 3)]
   \<and> table_size [\<lparr>minX = 2, minY = 3, maxX = 4, maxY = 4, isYCbCr = False,
             colorAt = (\<lambda>x y. \<lparr>R = 9, G = 9, B = 9, A = 255\<rparr>)\<rparr>] = 4
   \<and> snd (buildBucketMultiple \<lparr>Aggregation = Mean, Weighting = Some (\<lambda>m x y. 0), AddTransparent = True\<rparr> (\<lambda>y cb cr. (y, cb, cr)) \<lparr>maxCap = 0\<rparr> None [\<lparr>minX = 2, minY = 3, maxX = 4, maxY = 4, isYCbCr = False,
             colorAt = (\<lambda>x y. \<lparr>R = 9, G = 9, B = 9, A = 255\<rparr>)\<rparr>])
       = Some (Inr [])
   \<and> snd (QuantizeMultiple \<lparr>Aggregation = Mean, Weighting = Some (\<lambda>m x y. 0), AddTransparent = True\<rparr> (\<lambda>y cb cr. (y, cb, cr)) \<lparr>maxCap = 0\<rparr> None
            \<lparr>elems = [\<lparr>R = 1, G = 2, B = 3, A = 255\<rparr>], capacity = 4\<rparr> [\<lparr>minX = 2, minY = 3, maxX = 4, maxY = 4, isYCbCr = False,
             colorAt = (\<lambda>x y. \<lparr>R = 9, G = 9, B = 9, A = 255\<rparr>)\<rparr>])
       = Some (Inr [\<lparr>R = 1, G = 2, B = 3, A = 255\<rparr>, transparent])"
  using zero_weights_keep_prefix
    [of "\<lparr>Aggregation = Mean, Weighting = Some (\<lambda>m x y. 0), AddTransparent = True\<rparr>" "\<lambda>m x y. 0" "[\<lparr>minX = 2, minY = 3, maxX = 4, maxY = 4, isYCbCr = False,
             colorAt = (\<lambda>x y. \<lparr>R = 9, G = 9, B = 9, A = 255\<rparr>)\<rparr>]" "\<lambda>y cb cr. (y, cb, cr)" "\<lparr>maxCap = 0\<rparr>" None
        "\<lparr>elems = [\<lparr>R = 1, G = 2, B = 3, A = 255\<rparr>], capacity = 4\<rparr>"]
  by (simp add: pixels_def table_size_def MaxInt32_def wrap64_small)

text \<open>
  The claim as the specification states it (for every input) fails when the table size
  wraps to a negative number. These two images have well-formed bounds and no pixel at
  all, so every pixel has weight 0; their bounding box is \<open>2^31\<close> by \<open>2^31\<close>, the table size
  \<open>2^63\<close> wraps to \<open>-2^63\<close>, and \<open>getBucket\<close> panics on the slice bounds instead of returning
  a table.
\<close>

theorem zero_weights_wrap_counterexample:
  "Weighting \<lparr>Aggregation = Mean, Weighting = Some (\<lambda>m x y. 0), AddTransparent = True\<rparr> = Some (\<lambda>m x y. 0)
   \<and> pixels \<lparr>minX = 0, minY = 0, maxX = 2147483648, maxY = 0, isYCbCr = False,
             colorAt = (\<lambda>x y. \<lparr>R = 9, G = 9, B = 9, A = 255\<rparr>)\<rparr> = []
   \<and> pixels \<lparr>minX = 0, minY = 0, maxX = 0, maxY = 2147483648, isYCbCr = False,
             colorAt = (\<lambda>x y. \<lparr>R = 9, G = 9, B = 9, A = 255\<rparr>)\<rparr> = []
   \<and> minX \<lparr>minX = 0, minY = 0, maxX = 2147483648, maxY = 0, isYCbCr = False,
             colorAt = (\<lambda>x y. \<lparr>R = 9, G = 9, B = 9, A = 255\<rparr>)\<rparr> \<le> maxX \<lparr>minX = 0, minY = 0, maxX = 2147483648, maxY = 0, isYCbCr = False,
             colorAt = (\<lambda>x y. \<lparr>R = 9, G = 9, B = 9, A = 255\<rparr>)\<rparr>
   \<and> minY \<lparr>minX = 0, minY = 0, maxX = 2147483648, maxY = 0, isYCbCr = False,
             colorAt = (\<lambda>x y. \<lparr>R = 9, G = 9, B = 9, A = 255\<rparr>)\<rparr> \<le> maxY \<lparr>minX = 0, minY = 0, maxX = 2147483648, maxY = 0, isYCbCr = False,
             colorAt = (\<lambda>x y. \<lparr>R = 9, G = 9, B = 9, A = 255\<rparr>)\<rparr>
   \<and> minX \<lparr>minX = 0, minY = 0, maxX = 0, maxY = 2147483648, isYCbCr = False,
             colorAt = (\<lambda>x y. \<lparr>R = 9, G = 9, B = 9, A = 255\<rparr>)\<rparr> \<le> maxX \<lparr>minX = 0, minY = 0, maxX = 0, maxY = 2147483648, isYCbCr = False,
             colorAt = (\<lambda>x y. \<lparr>R = 9, G = 9, B = 9, A = 255\<rparr>)\<rparr>
   \<and> minY \<lparr>minX = 0, minY = 0, maxX = 0, maxY = 2147483648, isYCbCr = False,
             colorAt = (\<lambda>x y. \<lparr>R = 9, G = 9, B = 9, A = 255\<rparr>)\<rparr> \<le> maxY \<lparr>minX = 0, minY = 0, maxX = 0, maxY = 2147483648, isYCbCr = False,
             colorAt = (\<lambda>x y. \<lparr>R = 9, G = 9, B = 9, A = 255\<rparr>)\<rparr>
   \<and> bbox_area [\<lparr>minX = 0, minY = 0, maxX = 2147483648, maxY = 0, isYCbCr = False,
             colorAt = (\<lambda>x y. \<lparr>R = 9, G = 9, B = 9, A = 255\<rparr>)\<rparr>, \<lparr>minX = 0, minY = 0, maxX = 0, maxY = 2147483648, isYCbCr = False,
             colorAt = (\<lambda>x y. \<lparr>R = 9, G = 9, B = 9, A = 255\<rparr>)\<rparr>] = 2 ^ 62
   \<and> table_size [\<lparr>minX = 0, minY = 0, maxX = 2147483648, maxY = 0, isYCbCr = False,
             colorAt = (\<lambda>x y. \<lparr>R = 9, G = 9, B = 9, A = 255\<rparr>)\<rparr>, \<lparr>minX = 0, minY = 0, maxX = 0, maxY = 2147483648, isYCbCr = False,
             colorAt = (\<lambda>x y. \<lparr>R = 9, G = 9, B = 9, A = 255\<rparr>)\<rparr>] = - (2 ^ 63)
   \<and> snd (buildBucketMultiple \<lparr>Aggregation = Mean, Weighting = Some (\<lambda>m x y. 0), AddTransparent = True\<rparr> (\<lambda>y cb cr. (y, cb, cr)) \<lparr>maxCap = 0\<rparr> None [\<lparr>minX = 0, minY = 0, maxX = 2147483648, maxY = 0, isYCbCr = False,
             colorAt = (\<lambda>x y. \<lparr>R = 9, G = 9, B = 9, A = 255\<rparr>)\<rparr>, \<lparr>minX = 0, minY = 0, maxX = 0, maxY = 2147483648, isYCbCr = False,
             colorAt = (\<lambda>x y. \<lparr>R = 9, G = 9, B = 9, A = 255\<rparr>)\<rparr>])
       = Some (Inl SliceBoundsOutOfRange)
   \<and> snd (QuantizeMultiple \<lparr>Aggregation = Mean, Weighting = Some (\<lambda>m x y. 0), AddTransparent = True\<rparr> (\<lambda>y cb cr. (y, cb, cr)) \<lparr>maxCap = 0\<rparr> None
            \<lparr>elems = [\<lparr>R = 1, G = 2, B = 3, A = 255\<rparr>], capacity = 4\<rparr> [\<lparr>minX = 0, minY = 0, maxX = 2147483648, maxY = 0, isYCbCr = False,
             colorAt = (\<lambda>x y. \<lparr>R = 9, G = 9, B = 9, A = 255\<rparr>)\<rparr>, \<lparr>minX = 0, minY = 0, maxX = 0, maxY = 2147483648, isYCbCr = False,
             colorAt = (\<lambda>x y. \<lparr>R = 9, G = 9, B = 9, A = 255\<rparr>)\<rparr>])
       = Some (Inl SliceBoundsOutOfRange)"
proof -
  let ?q = "\<lparr>Aggregation = Mean, Weighting = Some (\<lambda>m x y. 0), AddTransparent = True\<rparr>"
  let ?m1 = "\<lparr>minX = 0, minY = 0, maxX = 2147483648, maxY = 0, isYCbCr = False,
             colorAt = (\<lambda>x y. \<lparr>R = 9, G = 9, B = 9, A = 255\<rparr>)\<rparr>"
  let ?m2 = "\<lparr>minX = 0, minY = 0, maxX = 0, maxY = 2147483648, isYCbCr = False,
             colorAt = (\<lambda>x y. \<lparr>R = 9, G = 9, B = 9, A = 255\<rparr>)\<rparr>"
  have w: "Weighting ?q = Some (\<lambda>m x y. 0)" by simp
  have p1: "pixels ?m1 = []" by (rule pixels_empty) simp
  have p2: "pixels ?m2 = []" by (rule pixels_empty) simp
  have b1: "minX ?m1 \<le> maxX ?m1" by simp
  have b2: "minY ?m1 \<le> maxY ?m1" by simp
  have b3: "minX ?m2 \<le> maxX ?m2" by simp
  have b4: "minY ?m2 \<le> maxY ?m2" by simp
  have ar: "bbox_area [?m1, ?m2] = 2 ^ 62"
    by (simp add: bbox_area_def MaxInt32_def)
  have s1: "wrap64 (wrap64 2147483648 * wrap64 2147483648) = 4611686018427387904"
    by (simp add: wrap64_small)
  have s2: "wrap64 9223372036854775808 = - 9223372036854775808"
    by (simp add: wrap64_def)
  have s3: "go_quot (wrap64 0) 100 = 0"
    by (simp add: wrap64_small go_quot_def)
  have ts: "table_size [?m1, ?m2] = - (2 ^ 63)"
    by (simp add: table_size_def MaxInt32_def s1 s2)
  have bb: "buildBucketMultiple ?q (\<lambda>y cb cr. (y, cb, cr)) \<lparr>maxCap = 0\<rparr> None [?m1, ?m2]
              = (\<lparr>maxCap = 0\<rparr>, Some (Inl SliceBoundsOutOfRange))"
    by (simp add: buildBucketMultiple_def MaxInt32_def s1 s2 getBucket_def s3
          make_slice_def Let_def)
  have bs: "snd (buildBucketMultiple ?q (\<lambda>y cb cr. (y, cb, cr)) \<lparr>maxCap = 0\<rparr> None [?m1, ?m2])
              = Some (Inl SliceBoundsOutOfRange)"
    by (simp only: bb snd_conv)
  have qm: "snd (QuantizeMultiple ?q (\<lambda>y cb cr. (y, cb, cr)) \<lparr>maxCap = 0\<rparr> None
            \<lparr>elems = [\<lparr>R = 1, G = 2, B = 3, A = 255\<rparr>], capacity = 4\<rparr> [?m1, ?m2])
       = Some (Inl SliceBoundsOutOfRange)"
    unfolding QuantizeMultiple_def bb by simp
  show ?thesis
    by (intro conjI) (fact w p1 p2 b1 b2 b3 b4 ar ts bs qm)+
qed

lemma quantizeSlice_length:
  assumes "quantizeSlice q pal colors = Some (Inr pal')"
    and "length (elems pal) \<le> capacity pal"
    and "\<not> (AddTransparent q \<and> (\<forall>c \<in> set (elems pal). A c \<noteq> 0))
         \<or> length (elems pal) < capacity pal"
  shows "int (length pal') - int (length (elems pal))
           \<le> int (capacity pal) - int (length (elems pal))"
proof -
  let ?addT = "AddTransparent q \<and> (\<forall>c \<in> set (elems pal). A c \<noteq> 0)"
  let ?num = "int (capacity pal) - int (length (elems pal)) - (if ?addT then 1 else 0)"
  from assms(1) obtain out pal'' where
    b: "bucketize colors ?num = Some (Inr out)"
    and pz: "palettize q (elems pal) out = Inr pal''"
    and p': "pal' = (if ?addT then pal'' @ [transparent] else pal'')"
    by (auto simp: quantizeSlice_def Let_def addTransparent_fold
        split: option.splits sum.splits if_splits)
  from palettize_append [OF pz] have "length pal'' = length (elems pal) + length out"
    by auto
  moreover from bucketize_length [OF b] have "int (length out) \<le> max ?num 0" .
  moreover from assms(2,3) have "0 \<le> ?num" by auto
  ultimately show ?thesis using p' by (auto split: if_splits)
qed

text \<open>
  Claim C1 fails on the code. A caller passes a full palette (one opaque entry, capacity
  1) and asks for a transparent entry; every pixel has weight 0, so no color is
  aggregated. \<open>quantizeSlice\<close> lowers the number of colors from 0 to \<open>-1\<close> and still
  appends the transparent entry: the returned palette has 2 entries, one more than the
  capacity allows.
\<close>

theorem transparent_overruns_full_palette:
  "snd (Quantize
          \<lparr>Aggregation = Mode, Weighting = Some (\<lambda>m x y. 0), AddTransparent = True\<rparr>
          (\<lambda>y cb cr. (y, cb, cr)) \<lparr>maxCap = 0\<rparr> None
          \<lparr>elems = [\<lparr>R = 255, G = 0, B = 0, A = 255\<rparr>], capacity = 1\<rparr>
          \<lparr>minX = 0, minY = 0, maxX = 2, maxY = 2, isYCbCr = False,
            colorAt = (\<lambda>x y. \<lparr>R = 9, G = 9, B = 9, A = 255\<rparr>)\<rparr>)
     = Some (Inr [\<lparr>R = 255, G = 0, B = 0, A = 255\<rparr>, transparent])
   \<and> \<not> (int (length [\<lparr>R = 255, G = 0, B = 0, A = 255\<rparr>, transparent])
            - int (length [\<lparr>R = 255, G = 0, B = 0, A = 255\<rparr>])
          \<le> int 1 - int (length [\<lparr>R = 255, G = 0, B = 0, A = 255\<rparr>]))"
proof -
  let ?q = "\<lparr>Aggregation = Mode, Weighting = Some (\<lambda>m x y. 0), AddTransparent = True\<rparr>"
  let ?m = "\<lparr>minX = 0, minY = 0, maxX = 2, maxY = 2, isYCbCr = False,
            colorAt = (\<lambda>x y. \<lparr>R = 9, G = 9, B = 9, A = 255\<rparr>)\<rparr>"
  have "snd (buildBucketMultiple ?q (\<lambda>y cb cr. (y, cb, cr)) \<lparr>maxCap = 0\<rparr> None [?m])
          = Some (Inr [])"
    by (rule buildBucketMultiple_zero [where f = "\<lambda>m x y. 0"])
       (simp_all add: table_size_def MaxInt32_def wrap64_small)
  then obtain pool' where
    "buildBucketMultiple ?q (\<lambda>y cb cr. (y, cb, cr)) \<lparr>maxCap = 0\<rparr> None [?m]
       = (pool', Some (Inr []))"
    by (cases "buildBucketMultiple ?q (\<lambda>y cb cr. (y, cb, cr)) \<lparr>maxCap = 0\<rparr> None [?m]") auto
  then show ?thesis
    by (simp add: Quantize_def QuantizeMultiple_def quantizeSlice_Nil)
qed

section \<open>Evaluation of the aggregation\<close>

lemma replicate_numeral_unfold: "replicate (numeral k) x = x # replicate (pred_numeral k) x"
  by (simp add: numeral_eq_Suc)

text \<open>The equations that evaluate \<open>buildBucketMultiple\<close> on a concrete input.\<close>

lemmas agg_simps = buildBucketMultiple_def MaxInt32_def getBucket_def make_slice_def
  reslice_clear_def contents_def cap_def pixels_def probe.simps color_index_def go_rem_def
  wrap64_small compact_def zeroColorPriority_def Let_def nth_Cons' list_update_code
  replicate_numeral_unfold

section \<open>Conservation of weight\<close>

lemma weight_sum_update:
  assumes "k < length tbl"
  shows "weight_sum (tbl[k := e]) + unat (p (tbl ! k)) = weight_sum tbl + unat (p e)"
  using assms
proof (induction tbl arbitrary: k)
  case Nil
  then show ?case by simp
next
  case (Cons a tbl)
  then show ?case by (cases k) (auto simp: weight_sum_def)
qed

lemma weight_sum_nth_le: "k < length tbl \<Longrightarrow> unat (p (tbl ! k)) \<le> weight_sum tbl"
proof (induction tbl arbitrary: k)
  case Nil
  then show ?case by simp
next
  case (Cons a tbl)
  show ?case
  proof (cases k)
    case 0
    then show ?thesis by (simp add: weight_sum_def)
  next
    case (Suc j)
    with Cons.prems have "j < length tbl" by simp
    from Cons.IH [OF this] Suc show ?thesis by (simp add: weight_sum_def)
  qed
qed

lemma unat_add_u32:
  fixes a w :: u32
  assumes "unat a + unat w < 2 ^ 32"
  shows "unat (a + w) = unat a + unat w"
  using assms by (simp add: unat_add_lem [THEN iffD1])

lemma probe_result:
  assumes "probe tbl sz c w i index = Some (Inr tbl')"
  shows "\<exists>k < length tbl. (p (tbl ! k) = 0 \<or> RGBA (tbl ! k) = c)
           \<and> tbl' = tbl[k := \<lparr>p = p (tbl ! k) + w, RGBA = c\<rparr>]"
proof -
  have "\<forall>t. Inr t = (Inr tbl' :: panic + colorBucket) \<longrightarrow>
          (\<exists>k < length tbl. (p (tbl ! k) = 0 \<or> RGBA (tbl ! k) = c)
             \<and> t = tbl[k := \<lparr>p = p (tbl ! k) + w, RGBA = c\<rparr>])"
  proof (rule probe.raw_induct
      [where P = "\<lambda>tbl sz c w i index r. \<forall>tbl'. Inr tbl' = r \<longrightarrow>
          (\<exists>k < length tbl. (p (tbl ! k) = 0 \<or> RGBA (tbl ! k) = c)
             \<and> tbl' = tbl[k := \<lparr>p = p (tbl ! k) + w, RGBA = c\<rparr>])", OF _ assms])
    fix prb :: "colorBucket \<Rightarrow> int \<Rightarrow> rgba \<Rightarrow> u32 \<Rightarrow> int \<Rightarrow> int \<Rightarrow> (panic + colorBucket) option"
    fix tbl sz c and w :: u32 and i index r
    assume IH: "\<And>tbl sz c w i index r. prb tbl sz c w i index = Some r \<Longrightarrow>
        \<forall>tbl'. Inr tbl' = r \<longrightarrow>
          (\<exists>k < length tbl. (p (tbl ! k) = 0 \<or> RGBA (tbl ! k) = c)
             \<and> tbl' = tbl[k := \<lparr>p = p (tbl ! k) + w, RGBA = c\<rparr>])"
    assume body: "(if sz = 0 then Some (Inl DivideByZero)
      else if go_rem index sz < 0 \<or> int (length tbl) \<le> go_rem index sz
        then Some (Inl IndexOutOfRange)
      else if p (tbl ! nat (go_rem index sz)) = 0 \<or> RGBA (tbl ! nat (go_rem index sz)) = c
        then Some (Inr (tbl[nat (go_rem index sz) :=
                        \<lparr>p = p (tbl ! nat (go_rem index sz)) + w, RGBA = c\<rparr>]))
      else prb tbl sz c w (wrap64 (i + 1)) (wrap64 (index + wrap64 (1 + i)))) = Some r"
    show "\<forall>tbl'. Inr tbl' = r \<longrightarrow>
          (\<exists>k < length tbl. (p (tbl ! k) = 0 \<or> RGBA (tbl ! k) = c)
             \<and> tbl' = tbl[k := \<lparr>p = p (tbl ! k) + w, RGBA = c\<rparr>])"
    proof (intro allI impI)
      fix tbl'
      assume r: "Inr tbl' = r"
      let ?k = "nat (go_rem index sz)"
      show "\<exists>k < length tbl. (p (tbl ! k) = 0 \<or> RGBA (tbl ! k) = c)
             \<and> tbl' = tbl[k := \<lparr>p = p (tbl ! k) + w, RGBA = c\<rparr>]"
      proof (cases "sz = 0 \<or> go_rem index sz < 0 \<or> int (length tbl) \<le> go_rem index sz")
        case True
        with body r show ?thesis by (auto split: if_splits)
      next
        case False
        then have k: "?k < length tbl" by auto
        show ?thesis
        proof (cases "p (tbl ! ?k) = 0 \<or> RGBA (tbl ! ?k) = c")
          case True
          with False body r
          have "tbl' = tbl[?k := \<lparr>p = p (tbl ! ?k) + w, RGBA = c\<rparr>]" by auto
          with k True show ?thesis by blast
        next
          case nf: False
          with False body
          have "prb tbl sz c w (wrap64 (i + 1)) (wrap64 (index + wrap64 (1 + i))) = Some r"
            by auto
          from IH [OF this] r show ?thesis by blast
        qed
      qed
    qed
  qed
  then show ?thesis by blast
qed

text \<open>
  One probe, with \<open>W c\<close> a bound on the weight that the table holds for the color \<open>c\<close>: when
  the new weight of the color stays below \<open>2^32\<close>, the addition does not wrap.
\<close>

lemma probe_weight:
  assumes pr: "probe tbl sz c w i index = Some (Inr tbl')"
    and inv: "\<forall>k < length tbl. unat (p (tbl ! k)) \<le> W (RGBA (tbl ! k))"
    and bound: "W c + unat w < 2 ^ 32"
  shows "weight_sum tbl' = weight_sum tbl + unat w"
    and "\<forall>k < length tbl'. unat (p (tbl' ! k)) \<le> (W(c := W c + unat w)) (RGBA (tbl' ! k))"
proof -
  from probe_result [OF pr] obtain k where k: "k < length tbl"
    and slot: "p (tbl ! k) = 0 \<or> RGBA (tbl ! k) = c"
    and t: "tbl' = tbl[k := \<lparr>p = p (tbl ! k) + w, RGBA = c\<rparr>]" by blast
  from slot inv k have le: "unat (p (tbl ! k)) \<le> W c" by auto
  with bound have "unat (p (tbl ! k)) + unat w < 2 ^ 32" by simp
  from unat_add_u32 [OF this]
  have add: "unat (p (tbl ! k) + w) = unat (p (tbl ! k)) + unat w" .
  with weight_sum_update [OF k, of "\<lparr>p = p (tbl ! k) + w, RGBA = c\<rparr>"] t
  show "weight_sum tbl' = weight_sum tbl + unat w" by simp
  show "\<forall>k < length tbl'. unat (p (tbl' ! k)) \<le> (W(c := W c + unat w)) (RGBA (tbl' ! k))"
  proof (intro allI impI)
    fix j
    assume "j < length tbl'"
    with t have j: "j < length tbl" by simp
    show "unat (p (tbl' ! j)) \<le> (W(c := W c + unat w)) (RGBA (tbl' ! j))"
    proof (cases "j = k")
      case True
      with t k add le show ?thesis by simp
    next
      case False
      with t have "tbl' ! j = tbl ! j" by simp
      with inv j show ?thesis by (auto intro: le_trans)
    qed
  qed
qed

lemma color_weight_pixels_Cons:
  "color_weight_pixels q m (xy # ps) c =
     (if colorAt m (fst xy) (snd xy) = c then pixel_weight q m xy else 0)
     + color_weight_pixels q m ps c"
  by (simp add: color_weight_pixels_def)

lemma scan_pixels_weight:
  assumes "scan_pixels q m sz ps tbl = Some (Inr tbl')"
    and "\<forall>k < length tbl. unat (p (tbl ! k)) \<le> W (RGBA (tbl ! k))"
    and "\<forall>c. W c + color_weight_pixels q m ps c < 2 ^ 32"
  shows "weight_sum tbl' = weight_sum tbl + sum_list (map (pixel_weight q m) ps)
       \<and> (\<forall>k < length tbl'. unat (p (tbl' ! k))
             \<le> W (RGBA (tbl' ! k)) + color_weight_pixels q m ps (RGBA (tbl' ! k)))"
  using assms
proof (induction ps arbitrary: tbl W)
  case Nil
  then show ?case by (simp add: color_weight_pixels_def)
next
  case (Cons xy ps)
  obtain x y where xy: "xy = (x, y)" by (cases xy)
  let ?w = "case Weighting q of None \<Rightarrow> 1 | Some f \<Rightarrow> f m x y"
  let ?c = "colorAt m x y"
  have pw: "pixel_weight q m xy = unat ?w"
    by (simp add: pixel_weight_def xy split: option.splits)
  have cw: "color_weight_pixels q m (xy # ps) c =
      (if ?c = c then unat ?w else 0) + color_weight_pixels q m ps c" for c
    by (simp add: color_weight_pixels_Cons pw) (simp add: xy)
  show ?case
  proof (cases "?w = 0")
    case True
    with Cons.prems(1) have rest: "scan_pixels q m sz ps tbl = Some (Inr tbl')"
      by (simp add: xy Let_def)
    from True have cw0: "color_weight_pixels q m (xy # ps) c = color_weight_pixels q m ps c"
      for c by (simp add: cw)
    from Cons.prems(3) have "\<forall>c. W c + color_weight_pixels q m ps c < 2 ^ 32"
      by (simp add: cw0)
    from Cons.IH [OF rest Cons.prems(2) this] True pw show ?thesis by (simp add: cw0)
  next
    case False
    with Cons.prems(1) obtain tbl1 where
      pr: "probe tbl sz ?c ?w 1 (color_index ?c) = Some (Inr tbl1)"
      and rest: "scan_pixels q m sz ps tbl1 = Some (Inr tbl')"
      by (auto simp: xy Let_def split: option.splits sum.splits)
    let ?W = "W(?c := W ?c + unat ?w)"
    from Cons.prems(3) have "W ?c + color_weight_pixels q m (xy # ps) ?c < 2 ^ 32" by blast
    then have b1: "W ?c + unat ?w < 2 ^ 32" by (simp add: cw)
    note pw1 = probe_weight [OF pr Cons.prems(2) b1]
    have Wc: "?W c + color_weight_pixels q m ps c
              = W c + color_weight_pixels q m (xy # ps) c" for c
      by (simp add: cw)
    have b2: "\<forall>c. ?W c + color_weight_pixels q m ps c < 2 ^ 32"
    proof
      fix c
      from Cons.prems(3) have "W c + color_weight_pixels q m (xy # ps) c < 2 ^ 32" by blast
      then show "?W c + color_weight_pixels q m ps c < 2 ^ 32" by (simp only: Wc)
    qed
    from Cons.IH [OF rest pw1(2) b2]
    have "weight_sum tbl' = weight_sum tbl1 + sum_list (map (pixel_weight q m) ps)"
      and "\<forall>k < length tbl'. unat (p (tbl' ! k))
             \<le> ?W (RGBA (tbl' ! k)) + color_weight_pixels q m ps (RGBA (tbl' ! k))"
      by blast+
    with pw1(1) pw show ?thesis by (simp only: Wc) simp
  qed
qed

lemma color_weight_Cons:
  "color_weight q (m # ms) c = color_weight_pixels q m (pixels m) c + color_weight q ms c"
  by (simp add: color_weight_def)

lemma scan_images_weight:
  assumes "scan_images q sz ms tbl = Some (Inr tbl')"
    and "\<forall>k < length tbl. unat (p (tbl ! k)) \<le> W (RGBA (tbl ! k))"
    and "\<forall>c. W c + color_weight q ms c < 2 ^ 32"
  shows "weight_sum tbl' = weight_sum tbl + total_weight q ms"
  using assms
proof (induction ms arbitrary: tbl W)
  case Nil
  then show ?case by (simp add: total_weight_def)
next
  case (Cons m ms)
  from Cons.prems(1) obtain tbl1 where
    sp: "scan_pixels q m sz (pixels m) tbl = Some (Inr tbl1)"
    and rest: "scan_images q sz ms tbl1 = Some (Inr tbl')"
    by (auto split: option.splits sum.splits)
  have tw: "total_weight q (m # ms) = image_weight q m + total_weight q ms"
    by (simp add: total_weight_def)
  let ?W = "\<lambda>c. W c + color_weight_pixels q m (pixels m) c"
  have b1: "\<forall>c. W c + color_weight_pixels q m (pixels m) c < 2 ^ 32"
  proof
    fix c
    from Cons.prems(3) have "W c + color_weight q (m # ms) c < 2 ^ 32" by blast
    then show "W c + color_weight_pixels q m (pixels m) c < 2 ^ 32"
      by (simp add: color_weight_Cons)
  qed
  from scan_pixels_weight [OF sp Cons.prems(2) b1]
  have t1: "weight_sum tbl1 = weight_sum tbl + image_weight q m"
    and inv1: "\<forall>k < length tbl1. unat (p (tbl1 ! k)) \<le> ?W (RGBA (tbl1 ! k))"
    by (simp_all add: image_weight_def)
  from Cons.prems(3) have b2: "\<forall>c. ?W c + color_weight q ms c < 2 ^ 32"
    by (simp add: color_weight_Cons add.assoc)
  from Cons.IH [OF rest inv1 b2] t1 tw show ?case by simp
qed

text \<open>A color that no pixel has carries no weight.\<close>

lemma color_weight_pos:
  assumes "0 < color_weight q ms c"
  shows "\<exists>m \<in> set ms. \<exists>xy \<in> set (pixels m). colorAt m (fst xy) (snd xy) = c"
proof -
  have "\<exists>m \<in> set xs. 0 < f m" if "0 < sum_list (map f xs)" for f :: "image \<Rightarrow> nat" and xs
    using that by (induction xs) auto
  from this [of "\<lambda>m. color_weight_pixels q m (pixels m) c" ms] assms
  obtain m where m: "m \<in> set ms" and "0 < color_weight_pixels q m (pixels m) c"
    by (auto simp: color_weight_def)
  then have "filter (\<lambda>xy. colorAt m (fst xy) (snd xy) = c) (pixels m) \<noteq> []"
    by (auto simp: color_weight_pixels_def)
  then obtain xy where "xy \<in> set (pixels m)" "colorAt m (fst xy) (snd xy) = c"
    by (auto simp: filter_empty_conv)
  with m show ?thesis by blast
qed

lemma weight_sum_filter: "weight_sum (filter (\<lambda>e. p e \<noteq> 0) tbl) = weight_sum tbl"
  by (induction tbl) (auto simp: weight_sum_def)

lemma weight_sum_compact: "weight_sum (compact ycc isY tbl) = weight_sum tbl"
proof -
  have "weight_sum (map (\<lambda>e. case ycc (R (RGBA e)) (G (RGBA e)) (B (RGBA e)) of
                   (r, g, b) \<Rightarrow> \<lparr>p = p e, RGBA = \<lparr>R = r, G = g, B = b, A = A (RGBA e)\<rparr>\<rparr>) xs)
          = weight_sum xs" for xs
    by (induction xs) (auto simp: weight_sum_def split: prod.splits)
  then show ?thesis by (simp add: compact_def weight_sum_filter)
qed

lemma weight_sum_replicate_zero: "weight_sum (replicate n zeroColorPriority) = 0"
  by (induction n) (auto simp: weight_sum_def zeroColorPriority_def)

lemma buildBucketMultiple_weight:
  assumes "snd (buildBucketMultiple q ycc pool val ms) = Some (Inr colors)"
    and "\<forall>m \<in> set ms. \<forall>xy \<in> set (pixels m).
           color_weight q ms (colorAt m (fst xy) (snd xy)) < 2 ^ 32"
  shows "weight_sum colors = total_weight q ms"
proof (cases "ms = []")
  case True
  with assms(1) show ?thesis
    by (simp add: buildBucketMultiple_def total_weight_def weight_sum_def)
next
  case False
  obtain lx gx ly gy where b: "bounds_loop ms (MaxInt32, 0, MaxInt32, 0) = (lx, gx, ly, gy)"
    by (cases "bounds_loop ms (MaxInt32, 0, MaxInt32, 0)") auto
  let ?sz = "wrap64 (wrap64 (wrap64 (gx - lx) * wrap64 (gy - ly)) * 2)"
  obtain pool' g where g: "getBucket pool val ?sz = (pool', g)"
    by (cases "getBucket pool val ?sz") auto
  from False have len: "\<not> length ms < 1" by (cases ms) auto
  from assms(1) len b g obtain s tbl where
    s: "g = Inr s" and sc: "scan_images q ?sz ms (contents s) = Some (Inr tbl)"
    and c: "colors = compact ycc (isYCbCr (hd ms)) tbl"
    by (auto simp: buildBucketMultiple_def Let_def split: sum.splits option.splits)
  from g s have "snd (getBucket pool val ?sz) = Inr s" by simp
  from getBucket_Inr(1) [OF this]
  have cs: "contents s = replicate (nat ?sz) zeroColorPriority" .
  then have z: "weight_sum (contents s) = 0" by (simp add: weight_sum_replicate_zero)
  from cs have inv: "\<forall>k < length (contents s).
      unat (p (contents s ! k)) \<le> (\<lambda>c. 0 :: nat) (RGBA (contents s ! k))"
    by (simp add: zeroColorPriority_def)
  have bound: "\<forall>c. (\<lambda>c. 0 :: nat) c + color_weight q ms c < 2 ^ 32"
  proof
    fix c
    show "(\<lambda>c. 0 :: nat) c + color_weight q ms c < 2 ^ 32"
    proof (cases "0 < color_weight q ms c")
      case True
      from color_weight_pos [OF this] assms(2) show ?thesis by auto
    next
      case False
      then show ?thesis by simp
    qed
  qed
  from scan_images_weight [OF sc inv bound] z c show ?thesis
    by (simp add: weight_sum_compact)
qed

lemma weight_sum_concat: "weight_sum (concat bs) = sum_list (map weight_sum bs)"
  by (induction bs) (auto simp: weight_sum_def)

lemma weight_sum_mset:
  assumes "mset xs = mset ys"
  shows "weight_sum xs = weight_sum ys"
proof -
  have "weight_sum zs = sum_mset (image_mset (\<lambda>c. unat (p c)) (mset zs))" for zs
    by (induction zs) (auto simp: weight_sum_def)
  with assms show ?thesis by simp
qed

lemma bucketize_weight:
  assumes "bucketize colors num = Some (Inr out)" and "num \<noteq> 0"
  shows "sum_list (map weight_sum out) = weight_sum colors"
proof (cases "colors = []")
  case True
  with assms(1) show ?thesis by (simp add: bucketize_def weight_sum_def)
next
  case False
  from bucketize_loop_pos [OF assms(1) False assms(2)]
  have "bucketize_loop num (length colors) [colors] = Some (Inr out)" by simp
  from bucketize_loop_Inr(1) [OF this] have "mset (concat out) = mset colors" by simp
  from weight_sum_mset [OF this] show ?thesis by (simp add: weight_sum_concat)
qed

text \<open>
  Claim C4, as amended. When the aggregation of the images returns a color list and, for
  every color that a pixel has, the weights of the pixels of that color add up to less
  than \<open>2^32\<close> (the 32-bit weight of the color does not wrap), the weights of the
  aggregated colors add up to the total weight of the pixels; and when \<open>bucketize\<close> is
  called on them with a target count other than 0 and returns buckets, the weights of
  the buckets add up to the same total. The totals themselves are not bounded.
\<close>

theorem weight_conserved:
  assumes "snd (buildBucketMultiple q ycc pool val ms) = Some (Inr colors)"
    and "\<forall>m \<in> set ms. \<forall>xy \<in> set (pixels m).
           color_weight q ms (colorAt m (fst xy) (snd xy)) < 2 ^ 32"
    and "bucketize colors num = Some (Inr out)"
    and "num \<noteq> 0"
  shows "sum_list (map weight_sum out) = weight_sum colors
       \<and> weight_sum colors = total_weight q ms"
  using bucketize_weight [OF assms(3,4)] buildBucketMultiple_weight [OF assms(1,2)]
  by simp

theorem weight_conserved_witness:
  "snd (buildBucketMultiple \<lparr>Aggregation = Mode,
        Weighting = Some (\<lambda>m x y. if x = 3 then 2147483648 else 1610612736),
        AddTransparent = False\<rparr> (\<lambda>y cb cr. (y, cb, cr)) \<lparr>maxCap = 0\<rparr> None [\<lparr>minX = 2, minY = 3, maxX = 5, maxY = 4, isYCbCr = False,
             colorAt = (\<lambda>x y. if x = 3 then \<lparr>R = 0, G = 0, B = 2, A = 255\<rparr>
                               else \<lparr>R = 0, G = 0, B = 1, A = 255\<rparr>)\<rparr>])
     = Some (Inr [\<lparr>p = 3221225472, RGBA = \<lparr>R = 0, G = 0, B = 1, A = 255\<rparr>\<rparr>,
          \<lparr>p = 2147483648, RGBA = \<lparr>R = 0, G = 0, B = 2, A = 255\<rparr>\<rparr>])
   \<and> pixels \<lparr>minX = 2, minY = 3, maxX = 5, maxY = 4, isYCbCr = False,
             colorAt = (\<lambda>x y. if x = 3 then \<lparr>R = 0, G = 0, B = 2, A = 255\<rparr>
                               else \<lparr>R = 0, G = 0, B = 1, A = 255\<rparr>)\<rparr> = [(2, 3), (3, 3), (4, 3)]
   \<and> color_weight \<lparr>Aggregation = Mode,
        Weighting = Some (\<lambda>m x y. if x = 3 then 2147483648 else 1610612736),
        AddTransparent = False\<rparr> [\<lparr>minX = 2, minY = 3, maxX = 5, maxY = 4, isYCbCr = False,
             colorAt = (\<lambda>x y. if x = 3 then \<lparr>R = 0, G = 0, B = 2, A = 255\<rparr>
                               else \<lparr>R = 0, G = 0, B = 1, A = 255\<rparr>)\<rparr>] \<lparr>R = 0, G = 0, B = 1, A = 255\<rparr> = 3221225472
   \<and> color_weight \<lparr>Aggregation = Mode,
        Weighting = Some (\<lambda>m x y. if x = 3 then 2147483648 else 1610612736),
        AddTransparent = False\<rparr> [\<lparr>minX = 2, minY = 3, maxX = 5, maxY = 4, isYCbCr = False,
             colorAt = (\<lambda>x y. if x = 3 then \<lparr>R = 0, G = 0, B = 2, A = 255\<rparr>
                               else \<lparr>R = 0, G = 0, B = 1, A = 255\<rparr>)\<rparr>] \<lparr>R = 0, G = 0, B = 2, A = 255\<rparr> = 2147483648
   \<and> (3221225472 :: nat) < 2 ^ 32
   \<and> bucketize [\<lparr>p = 3221225472, RGBA = \<lparr>R = 0, G = 0, B = 1, A = 255\<rparr>\<rparr>,
          \<lparr>p = 2147483648, RGBA = \<lparr>R = 0, G = 0, B = 2, A = 255\<rparr>\<rparr>] 2 = Some (Inr [[\<lparr>p = 3221225472, RGBA = \<lparr>R = 0, G = 0, B = 1, A = 255\<rparr>\<rparr>],
          [\<lparr>p = 2147483648, RGBA = \<lparr>R = 0, G = 0, B = 2, A = 255\<rparr>\<rparr>]])
   \<and> (2 :: int) \<noteq> 0
   \<and> sum_list (map weight_sum [[\<lparr>p = 3221225472, RGBA = \<lparr>R = 0, G = 0, B = 1, A = 255\<rparr>\<rparr>],
          [\<lparr>p = 2147483648, RGBA = \<lparr>R = 0, G = 0, B = 2, A = 255\<rparr>\<rparr>]]) = weight_sum [\<lparr>p = 3221225472, RGBA = \<lparr>R = 0, G = 0, B = 1, A = 255\<rparr>\<rparr>,
          \<lparr>p = 2147483648, RGBA = \<lparr>R = 0, G = 0, B = 2, A = 255\<rparr>\<rparr>]
   \<and> weight_sum [\<lparr>p = 3221225472, RGBA = \<lparr>R = 0, G = 0, B = 1, A = 255\<rparr>\<rparr>,
          \<lparr>p = 2147483648, RGBA = \<lparr>R = 0, G = 0, B = 2, A = 255\<rparr>\<rparr>] = total_weight \<lparr>Aggregation = Mode,
        Weighting = Some (\<lambda>m x y. if x = 3 then 2147483648 else 1610612736),
        AddTransparent = False\<rparr> [\<lparr>minX = 2, minY = 3, maxX = 5, maxY = 4, isYCbCr = False,
             colorAt = (\<lambda>x y. if x = 3 then \<lparr>R = 0, G = 0, B = 2, A = 255\<rparr>
                               else \<lparr>R = 0, G = 0, B = 1, A = 255\<rparr>)\<rparr>]
   \<and> total_weight \<lparr>Aggregation = Mode,
        Weighting = Some (\<lambda>m x y. if x = 3 then 2147483648 else 1610612736),
        AddTransparent = False\<rparr> [\<lparr>minX = 2, minY = 3, maxX = 5, maxY = 4, isYCbCr = False,
             colorAt = (\<lambda>x y. if x = 3 then \<lparr>R = 0, G = 0, B = 2, A = 255\<rparr>
                               else \<lparr>R = 0, G = 0, B = 1, A = 255\<rparr>)\<rparr>] = 5368709120
   \<and> (2 :: nat) ^ 32 < 5368709120"
  using weight_conserved
    [of "\<lparr>Aggregation = Mode,
        Weighting = Some (\<lambda>m x y. if x = 3 then 2147483648 else 1610612736),
        AddTransparent = False\<rparr>" "\<lambda>y cb cr. (y, cb, cr)" "\<lparr>maxCap = 0\<rparr>" None "[\<lparr>minX = 2, minY = 3, maxX = 5, maxY = 4, isYCbCr = False,
             colorAt = (\<lambda>x y. if x = 3 then \<lparr>R = 0, G = 0, B = 2, A = 255\<rparr>
                               else \<lparr>R = 0, G = 0, B = 1, A = 255\<rparr>)\<rparr>]"
        "[\<lparr>p = 3221225472, RGBA = \<lparr>R = 0, G = 0, B = 1, A = 255\<rparr>\<rparr>,
          \<lparr>p = 2147483648, RGBA = \<lparr>R = 0, G = 0, B = 2, A = 255\<rparr>\<rparr>]" 2 "[[\<lparr>p = 3221225472, RGBA = \<lparr>R = 0, G = 0, B = 1, A = 255\<rparr>\<rparr>],
          [\<lparr>p = 2147483648, RGBA = \<lparr>R = 0, G = 0, B = 2, A = 255\<rparr>\<rparr>]]"]
  by (simp add: agg_simps eval_simps total_weight_def image_weight_def pixel_weight_def
        color_weight_def color_weight_pixels_def)

text \<open>
  The claim as the specification states it (for every input) fails when the target count
  is 0, as it is for a palette that is already full: the three pixels of this image are
  aggregated to two colors of total weight 3, and \<open>bucketize\<close> returns no bucket at all,
  by its first test.
\<close>

theorem weight_lost_counterexample:
  "snd (buildBucketMultiple \<lparr>Aggregation = Mode, Weighting = None, AddTransparent = False\<rparr> (\<lambda>y cb cr. (y, cb, cr)) \<lparr>maxCap = 0\<rparr> None [\<lparr>minX = 2, minY = 3, maxX = 5, maxY = 4, isYCbCr = False,
             colorAt = (\<lambda>x y. if x = 3 then \<lparr>R = 0, G = 0, B = 2, A = 255\<rparr>
                               else \<lparr>R = 0, G = 0, B = 1, A = 255\<rparr>)\<rparr>])
     = Some (Inr [\<lparr>p = 2, RGBA = \<lparr>R = 0, G = 0, B = 1, A = 255\<rparr>\<rparr>,
          \<lparr>p = 1, RGBA = \<lparr>R = 0, G = 0, B = 2, A = 255\<rparr>\<rparr>])
   \<and> total_weight \<lparr>Aggregation = Mode, Weighting = None, AddTransparent = False\<rparr> [\<lparr>minX = 2, minY = 3, maxX = 5, maxY = 4, isYCbCr = False,
             colorAt = (\<lambda>x y. if x = 3 then \<lparr>R = 0, G = 0, B = 2, A = 255\<rparr>
                               else \<lparr>R = 0, G = 0, B = 1, A = 255\<rparr>)\<rparr>] = 3
   \<and> weight_sum [\<lparr>p = 2, RGBA = \<lparr>R = 0, G = 0, B = 1, A = 255\<rparr>\<rparr>,
          \<lparr>p = 1, RGBA = \<lparr>R = 0, G = 0, B = 2, A = 255\<rparr>\<rparr>] = 3
   \<and> bucketize [\<lparr>p = 2, RGBA = \<lparr>R = 0, G = 0, B = 1, A = 255\<rparr>\<rparr>,
          \<lparr>p = 1, RGBA = \<lparr>R = 0, G = 0, B = 2, A = 255\<rparr>\<rparr>] 0 = Some (Inr [])
   \<and> sum_list (map weight_sum []) \<noteq> weight_sum [\<lparr>p = 2, RGBA = \<lparr>R = 0, G = 0, B = 1, A = 255\<rparr>\<rparr>,
          \<lparr>p = 1, RGBA = \<lparr>R = 0, G = 0, B = 2, A = 255\<rparr>\<rparr>]"
  by (simp add: agg_simps bucketize_def total_weight_def image_weight_def pixel_weight_def
        weight_sum_def)

text \<open>
  The bound on the weight of each color is needed: a color's weight is a \<^verbatim>\<open>uint32\<close> and
  wraps. With weight \<open>2^31\<close> on each of the three pixels, the color seen twice gets weight
  \<open>2^32 = 0\<close> and is dropped from the aggregated list as if it had never been seen.
\<close>

lemma weight_wraps_example:
  "snd (buildBucketMultiple \<lparr>Aggregation = Mode, Weighting = Some (\<lambda>m x y. 2147483648), AddTransparent = False\<rparr> (\<lambda>y cb cr. (y, cb, cr)) \<lparr>maxCap = 0\<rparr> None [\<lparr>minX = 2, minY = 3, maxX = 5, maxY = 4, isYCbCr = False,
             colorAt = (\<lambda>x y. if x = 3 then \<lparr>R = 0, G = 0, B = 2, A = 255\<rparr>
                               else \<lparr>R = 0, G = 0, B = 1, A = 255\<rparr>)\<rparr>])
     = Some (Inr [\<lparr>p = 2147483648, RGBA = \<lparr>R = 0, G = 0, B = 2, A = 255\<rparr>\<rparr>])"
  by (simp add: agg_simps)

section \<open>Mode aggregation of colors that differ in alpha only\<close>

text \<open>
  Claim C3 fails on the code. The three pixels of this image have the colors
  \<open>(0,0,0,1)\<close>, \<open>(0,0,0,2)\<close>, \<open>(0,0,0,3)\<close>: three distinct aggregated colors, and the palette
  has room for three. \<open>bucketize\<close> has to split the bucket of three; all three channel
  ranges are 0, the pivot is 0 and no member is below it, so the right scan of
  \<open>partition\<close> runs off the start of the bucket: an index-out-of-range panic instead of
  a palette.
\<close>

theorem alpha_only_colors_panic:
  "snd (buildBucketMultiple \<lparr>Aggregation = Mode, Weighting = None, AddTransparent = False\<rparr> (\<lambda>y cb cr. (y, cb, cr)) \<lparr>maxCap = 0\<rparr> None [\<lparr>minX = 2, minY = 3, maxX = 5, maxY = 4, isYCbCr = False,
             colorAt = (\<lambda>x y. if x = 2 then \<lparr>R = 0, G = 0, B = 0, A = 1\<rparr>
                               else if x = 3 then \<lparr>R = 0, G = 0, B = 0, A = 2\<rparr>
                               else \<lparr>R = 0, G = 0, B = 0, A = 3\<rparr>)\<rparr>])
     = Some (Inr [\<lparr>p = 1, RGBA = \<lparr>R = 0, G = 0, B = 0, A = 1\<rparr>\<rparr>,
          \<lparr>p = 1, RGBA = \<lparr>R = 0, G = 0, B = 0, A = 2\<rparr>\<rparr>,
          \<lparr>p = 1, RGBA = \<lparr>R = 0, G = 0, B = 0, A = 3\<rparr>\<rparr>])
   \<and> distinct [\<lparr>p = 1, RGBA = \<lparr>R = 0, G = 0, B = 0, A = 1\<rparr>\<rparr>,
          \<lparr>p = 1, RGBA = \<lparr>R = 0, G = 0, B = 0, A = 2\<rparr>\<rparr>,
          \<lparr>p = 1, RGBA = \<lparr>R = 0, G = 0, B = 0, A = 3\<rparr>\<rparr>]
   \<and> int (length [\<lparr>p = 1, RGBA = \<lparr>R = 0, G = 0, B = 0, A = 1\<rparr>\<rparr>,
          \<lparr>p = 1, RGBA = \<lparr>R = 0, G = 0, B = 0, A = 2\<rparr>\<rparr>,
          \<lparr>p = 1, RGBA = \<lparr>R = 0, G = 0, B = 0, A = 3\<rparr>\<rparr>]) \<le> int (capacity \<lparr>elems = [], capacity = 3\<rparr>)
                              - int (length (elems \<lparr>elems = [], capacity = 3\<rparr>))
   \<and> partition [\<lparr>p = 1, RGBA = \<lparr>R = 0, G = 0, B = 0, A = 1\<rparr>\<rparr>,
          \<lparr>p = 1, RGBA = \<lparr>R = 0, G = 0, B = 0, A = 2\<rparr>\<rparr>,
          \<lparr>p = 1, RGBA = \<lparr>R = 0, G = 0, B = 0, A = 3\<rparr>\<rparr>] = Inl IndexOutOfRange
   \<and> snd (Quantize \<lparr>Aggregation = Mode, Weighting = None, AddTransparent = False\<rparr> (\<lambda>y cb cr. (y, cb, cr)) \<lparr>maxCap = 0\<rparr> None
            \<lparr>elems = [], capacity = 3\<rparr> \<lparr>minX = 2, minY = 3, maxX = 5, maxY = 4, isYCbCr = False,
             colorAt = (\<lambda>x y. if x = 2 then \<lparr>R = 0, G = 0, B = 0, A = 1\<rparr>
                               else if x = 3 then \<lparr>R = 0, G = 0, B = 0, A = 2\<rparr>
                               else \<lparr>R = 0, G = 0, B = 0, A = 3\<rparr>)\<rparr>)
       = Some (Inl IndexOutOfRange)"
proof -
  have a: "buildBucketMultiple \<lparr>Aggregation = Mode, Weighting = None, AddTransparent = False\<rparr> (\<lambda>y cb cr. (y, cb, cr)) \<lparr>maxCap = 0\<rparr> None [\<lparr>minX = 2, minY = 3, maxX = 5, maxY = 4, isYCbCr = False,
             colorAt = (\<lambda>x y. if x = 2 then \<lparr>R = 0, G = 0, B = 0, A = 1\<rparr>
                               else if x = 3 then \<lparr>R = 0, G = 0, B = 0, A = 2\<rparr>
                               else \<lparr>R = 0, G = 0, B = 0, A = 3\<rparr>)\<rparr>]
     = (\<lparr>maxCap = 6\<rparr>, Some (Inr [\<lparr>p = 1, RGBA = \<lparr>R = 0, G = 0, B = 0, A = 1\<rparr>\<rparr>,
          \<lparr>p = 1, RGBA = \<lparr>R = 0, G = 0, B = 0, A = 2\<rparr>\<rparr>,
          \<lparr>p = 1, RGBA = \<lparr>R = 0, G = 0, B = 0, A = 3\<rparr>\<rparr>]))"
    by (simp add: agg_simps)
  have b: "partition [\<lparr>p = 1, RGBA = \<lparr>R = 0, G = 0, B = 0, A = 1\<rparr>\<rparr>,
          \<lparr>p = 1, RGBA = \<lparr>R = 0, G = 0, B = 0, A = 2\<rparr>\<rparr>,
          \<lparr>p = 1, RGBA = \<lparr>R = 0, G = 0, B = 0, A = 3\<rparr>\<rparr>] = Inl IndexOutOfRange"
    by (simp add: eval_simps)
  have c: "bucketize [\<lparr>p = 1, RGBA = \<lparr>R = 0, G = 0, B = 0, A = 1\<rparr>\<rparr>,
          \<lparr>p = 1, RGBA = \<lparr>R = 0, G = 0, B = 0, A = 2\<rparr>\<rparr>,
          \<lparr>p = 1, RGBA = \<lparr>R = 0, G = 0, B = 0, A = 3\<rparr>\<rparr>] 3 = Some (Inl IndexOutOfRange)"
    by (simp add: eval_simps)
  have d: "quantizeSlice \<lparr>Aggregation = Mode, Weighting = None, AddTransparent = False\<rparr> \<lparr>elems = [], capacity = 3\<rparr> [\<lparr>p = 1, RGBA = \<lparr>R = 0, G = 0, B = 0, A = 1\<rparr>\<rparr>,
          \<lparr>p = 1, RGBA = \<lparr>R = 0, G = 0, B = 0, A = 2\<rparr>\<rparr>,
          \<lparr>p = 1, RGBA = \<lparr>R = 0, G = 0, B = 0, A = 3\<rparr>\<rparr>] = Some (Inl IndexOutOfRange)"
    by (simp add: quantizeSlice_def c)
  show ?thesis
    by (simp add: a b d Quantize_def QuantizeMultiple_def)
qed

section \<open>The probing loop\<close>

lemma go_rem_pos: "0 < a \<Longrightarrow> go_rem a 18 = a mod 18"
  by (simp add: go_rem_def)

lemma probe_residue:
  fixes i index :: int
  assumes "0 \<le> i" and "2 * index = i * i + i + 34"
  shows "index mod 18 \<in> {0, 2, 5, 8, 9, 11, 14, 17}"
proof -
  define r where "r = i mod 36"
  define q where "q = i div 36"
  define a where "a = r * r + r + 34"
  define b where "b = 36 * q * q + 2 * q * r + q"
  have i: "i = 36 * q + r" by (simp add: r_def q_def)
  have r: "0 \<le> r" "r < 36" by (simp_all add: r_def)
  have "2 * index = a + 2 * (18 * b)"
    unfolding assms(2) i a_def b_def by (simp add: algebra_simps)
  then have "index = a div 2 + 18 * b" by presburger
  then have m: "index mod 18 = (a div 2) mod 18" by simp
  from r have "r = 0 \<or> r = 1 \<or> r = 2 \<or> r = 3 \<or> r = 4 \<or> r = 5 \<or> r = 6 \<or> r = 7 \<or> r = 8 \<or> r = 9 \<or> r = 10 \<or> r = 11 \<or> r = 12 \<or> r = 13 \<or> r = 14 \<or> r = 15 \<or> r = 16 \<or> r = 17 \<or> r = 18 \<or> r = 19 \<or> r = 20 \<or> r = 21 \<or> r = 22 \<or> r = 23 \<or> r = 24 \<or> r = 25 \<or> r = 26 \<or> r = 27 \<or> r = 28 \<or> r = 29 \<or> r = 30 \<or> r = 31 \<or> r = 32 \<or> r = 33 \<or> r = 34 \<or> r = 35"
    by presburger
  then have "(a div 2) mod 18 \<in> {0, 2, 5, 8, 9, 11, 14, 17}"
    unfolding a_def by (elim disjE) simp_all
  with m show ?thesis by simp
qed

lemma probe_occupied_step:
  assumes len: "length tbl = 18"
    and occ: "\<forall>s \<in> {0, 2, 5, 8, 9, 11, 14, 17}. p (tbl ! s) \<noteq> 0 \<and> RGBA (tbl ! s) \<noteq> c"
    and i: "1 \<le> i" "i \<le> 4294967295"
    and inv: "2 * index = i * i + i + 34"
  shows "probe tbl 18 c w i index = probe tbl 18 c w (i + 1) (wrap64 (index + (1 + i)))"
proof -
  from i have "0 \<le> i" by simp
  from probe_residue [OF this inv]
  have res: "index mod 18 \<in> {0, 2, 5, 8, 9, 11, 14, 17}" .
  have "0 \<le> i * i" by simp
  with inv i have pos: "0 < index" by linarith
  then have g: "go_rem index 18 = index mod 18" by (rule go_rem_pos)
  have "0 \<le> index mod 18" "index mod 18 < 18" by simp_all
  then have rng: "\<not> index mod 18 < 0" "\<not> 18 \<le> index mod 18" by linarith+
  from res have "nat (index mod 18) \<in> {0, 2, 5, 8, 9, 11, 14, 17}" by auto
  with occ have o: "p (tbl ! nat (index mod 18)) \<noteq> 0"
    "RGBA (tbl ! nat (index mod 18)) \<noteq> c" by blast+
  from i have w1: "wrap64 (i + 1) = i + 1" "wrap64 (1 + i) = 1 + i"
    by (simp_all add: wrap64_id)
  show ?thesis
    by (subst probe.simps) (simp add: g rng o len w1)
qed

lemma probe_futile:
  assumes len: "length tbl = 18"
    and occ: "\<forall>s \<in> {0, 2, 5, 8, 9, 11, 14, 17}. p (tbl ! s) \<noteq> 0 \<and> RGBA (tbl ! s) \<noteq> c"
    and i: "1 \<le> i" "i \<le> 4294967295"
    and inv: "2 * index = i * i + i + 34"
  shows "probe tbl 18 c w i index = Some (Inl IndexOutOfRange)"
  using i inv
proof (induction "nat (4294967295 - i)" arbitrary: i index)
  case 0
  then have ie: "i = 4294967295" by simp
  with "0.prems"(3) have idx: "index = 9223372034707292177" by simp
  have "probe tbl 18 c w i index = probe tbl 18 c w (i + 1) (wrap64 (index + (1 + i)))"
    using len occ "0.prems" by (rule probe_occupied_step)
  also have "wrap64 (index + (1 + i)) = - 9223372034707292143"
    by (simp add: ie idx wrap64_def)
  also have "probe tbl 18 c w (i + 1) (- 9223372034707292143) = Some (Inl IndexOutOfRange)"
    by (subst probe.simps) (simp add: go_rem_def)
  finally show ?case .
next
  case (Suc n)
  then have lt: "i < 4294967295" by simp
  have "0 \<le> i * i" by simp
  from lt have le: "i \<le> 4294967294" by simp
  have "i * i \<le> 4294967294 * 4294967294"
    using Suc.prems(1) le by (intro mult_mono) simp_all
  then have "i * i \<le> 18446744056529682436" by simp
  with Suc.prems le \<open>0 \<le> i * i\<close>
  have b: "0 \<le> index" "index + (1 + i) < 9223372036854775808" by linarith+
  then have "index + (1 + i) < 2 ^ 63" by simp
  moreover from b(1) Suc.prems(1) have "- (2 ^ 63) \<le> index + (1 + i)" by simp
  ultimately have w: "wrap64 (index + (1 + i)) = index + (1 + i)"
    by (intro wrap64_id)
  have "probe tbl 18 c w i index = probe tbl 18 c w (i + 1) (wrap64 (index + (1 + i)))"
    using len occ Suc.prems by (rule probe_occupied_step)
  also have "\<dots> = probe tbl 18 c w (i + 1) (index + (1 + i))" by (simp only: w)
  also have "\<dots> = Some (Inl IndexOutOfRange)"
  proof (rule Suc.hyps(1))
    from Suc.hyps(2) show "n = nat (4294967295 - (i + 1))" by simp
    from Suc.prems(1) show "1 \<le> i + 1" by simp
    from lt show "i + 1 \<le> 4294967295" by simp
    from Suc.prems(3) show "2 * (index + (1 + i)) = (i + 1) * (i + 1) + (i + 1) + 34"
      by (simp add: algebra_simps)
  qed
  finally show ?case .
qed

lemma scan_pixels_append:
  "scan_pixels q m sz (ps @ qs) tbl =
     (case scan_pixels q m sz ps tbl of
        None \<Rightarrow> None
      | Some (Inl e) \<Rightarrow> Some (Inl e)
      | Some (Inr tbl') \<Rightarrow> scan_pixels q m sz qs tbl')"
proof (induction ps arbitrary: tbl)
  case Nil
  then show ?case by simp
next
  case (Cons xy ps)
  obtain x y where xy: "xy = (x, y)" by (cases xy)
  show ?case
    by (simp add: xy Let_def Cons.IH split: option.splits sum.splits)
qed

text \<open>
  Claim C2 fails on the code. The probe does not visit every slot: the offsets from the
  start are \<open>0, 2, 5, 9, 14, 20, \<dots>\<close> (the \<open>k\<close>-th is \<open>k (k + 3) / 2\<close>, not \<open>0, 2, 5, 8\<close> as
  the specification has it), and modulo 18, the table size for nine pixels, they only
  take the eight values \<open>0, 2, 5, 8, 9, 11, 14, 17\<close>. In this 3 by 3 image the first eight
  pixels have eight colors that fill exactly these slots; the color of the ninth pixel
  starts at slot 0 and never meets an empty slot or its own, although ten slots of the
  table are empty. The loop goes on until, at \<open>i = 2^32\<close>, the 64-bit \<open>index\<close> wraps to a
  negative number, \<^verbatim>\<open>index%size\<close> is \<open>-7\<close> and the indexing panics.
\<close>

theorem probe_never_finds_slot:
  "scan_pixels \<lparr>Aggregation = Mode, Weighting = None, AddTransparent = False\<rparr> \<lparr>minX = 2, minY = 2, maxX = 5, maxY = 5, isYCbCr = False,
        colorAt = (\<lambda>x y. \<lparr>R = 0, G = 0,
                            B = [0, 2, 5, 8, 9, 11, 14, 17, 18] ! nat (3 * (y - 2) + (x - 2)),
                            A = 255\<rparr>)\<rparr> 18 [(2, 2), (3, 2), (4, 2), (2, 3), (3, 3), (4, 3), (2, 4), (3, 4)] (replicate 18 zeroColorPriority)
     = Some (Inr [\<lparr>p = 1, RGBA = \<lparr>R = 0, G = 0, B = 0, A = 255\<rparr>\<rparr>,
      zeroColorPriority,
      \<lparr>p = 1, RGBA = \<lparr>R = 0, G = 0, B = 2, A = 255\<rparr>\<rparr>,
      zeroColorPriority,
      zeroColorPriority,
      \<lparr>p = 1, RGBA = \<lparr>R = 0, G = 0, B = 5, A = 255\<rparr>\<rparr>,
      zeroColorPriority,
      zeroColorPriority,
      \<lparr>p = 1, RGBA = \<lparr>R = 0, G = 0, B = 8, A = 255\<rparr>\<rparr>,
      \<lparr>p = 1, RGBA = \<lparr>R = 0, G = 0, B = 9, A = 255\<rparr>\<rparr>,
      zeroColorPriority,
      \<lparr>p = 1, RGBA = \<lparr>R = 0, G = 0, B = 11, A = 255\<rparr>\<rparr>,
      zeroColorPriority,
      zeroColorPriority,
      \<lparr>p = 1, RGBA = \<lparr>R = 0, G = 0, B = 14, A = 255\<rparr>\<rparr>,
      zeroColorPriority,
      zeroColorPriority,
      \<lparr>p = 1, RGBA = \<lparr>R = 0, G = 0, B = 17, A = 255\<rparr>\<rparr>])
   \<and> probe [\<lparr>p = 1, RGBA = \<lparr>R = 0, G = 0, B = 0, A = 255\<rparr>\<rparr>,
      zeroColorPriority,
      \<lparr>p = 1, RGBA = \<lparr>R = 0, G = 0, B = 2, A = 255\<rparr>\<rparr>,
      zeroColorPriority,
      zeroColorPriority,
      \<lparr>p = 1, RGBA = \<lparr>R = 0, G = 0, B = 5, A = 255\<rparr>\<rparr>,
      zeroColorPriority,
      zeroColorPriority,
      \<lparr>p = 1, RGBA = \<lparr>R = 0, G = 0, B = 8, A = 255\<rparr>\<rparr>,
      \<lparr>p = 1, RGBA = \<lparr>R = 0, G = 0, B = 9, A = 255\<rparr>\<rparr>,
      zeroColorPriority,
      \<lparr>p = 1, RGBA = \<lparr>R = 0, G = 0, B = 11, A = 255\<rparr>\<rparr>,
      zeroColorPriority,
      zeroColorPriority,
      \<lparr>p = 1, RGBA = \<lparr>R = 0, G = 0, B = 14, A = 255\<rparr>\<rparr>,
      zeroColorPriority,
      zeroColorPriority,
      \<lparr>p = 1, RGBA = \<lparr>R = 0, G = 0, B = 17, A = 255\<rparr>\<rparr>] 18 \<lparr>R = 0, G = 0, B = 18, A = 255\<rparr> 1 1
        (color_index \<lparr>R = 0, G = 0, B = 18, A = 255\<rparr>)
       = Some (Inl IndexOutOfRange)
   \<and> snd (Quantize \<lparr>Aggregation = Mode, Weighting = None, AddTransparent = False\<rparr> (\<lambda>y cb cr. (y, cb, cr)) \<lparr>maxCap = 0\<rparr> None
            \<lparr>elems = [], capacity = 4\<rparr> \<lparr>minX = 2, minY = 2, maxX = 5, maxY = 5, isYCbCr = False,
        colorAt = (\<lambda>x y. \<lparr>R = 0, G = 0,
                            B = [0, 2, 5, 8, 9, 11, 14, 17, 18] ! nat (3 * (y - 2) + (x - 2)),
                            A = 255\<rparr>)\<rparr>)
       = Some (Inl IndexOutOfRange)"
proof -
  let ?q = "\<lparr>Aggregation = Mode, Weighting = None, AddTransparent = False\<rparr>"
  let ?m = "\<lparr>minX = 2, minY = 2, maxX = 5, maxY = 5, isYCbCr = False,
        colorAt = (\<lambda>x y. \<lparr>R = 0, G = 0,
                            B = [0, 2, 5, 8, 9, 11, 14, 17, 18] ! nat (3 * (y - 2) + (x - 2)),
                            A = 255\<rparr>)\<rparr>"
  let ?tbl = "[\<lparr>p = 1, RGBA = \<lparr>R = 0, G = 0, B = 0, A = 255\<rparr>\<rparr>,
      zeroColorPriority,
      \<lparr>p = 1, RGBA = \<lparr>R = 0, G = 0, B = 2, A = 255\<rparr>\<rparr>,
      zeroColorPriority,
      zeroColorPriority,
      \<lparr>p = 1, RGBA = \<lparr>R = 0, G = 0, B = 5, A = 255\<rparr>\<rparr>,
      zeroColorPriority,
      zeroColorPriority,
      \<lparr>p = 1, RGBA = \<lparr>R = 0, G = 0, B = 8, A = 255\<rparr>\<rparr>,
      \<lparr>p = 1, RGBA = \<lparr>R = 0, G = 0, B = 9, A = 255\<rparr>\<rparr>,
      zeroColorPriority,
      \<lparr>p = 1, RGBA = \<lparr>R = 0, G = 0, B = 11, A = 255\<rparr>\<rparr>,
      zeroColorPriority,
      zeroColorPriority,
      \<lparr>p = 1, RGBA = \<lparr>R = 0, G = 0, B = 14, A = 255\<rparr>\<rparr>,
      zeroColorPriority,
      zeroColorPriority,
      \<lparr>p = 1, RGBA = \<lparr>R = 0, G = 0, B = 17, A = 255\<rparr>\<rparr>]"
  let ?c = "\<lparr>R = 0, G = 0, B = 18, A = 255\<rparr> :: rgba"
  have px: "pixels ?m = [(2, 2), (3, 2), (4, 2), (2, 3), (3, 3), (4, 3), (2, 4), (3, 4)] @ [(4, 4)]"
    by (simp add: pixels_def)
  have s8: "scan_pixels ?q ?m 18 [(2, 2), (3, 2), (4, 2), (2, 3), (3, 3), (4, 3), (2, 4), (3, 4)] (replicate 18 zeroColorPriority) = Some (Inr ?tbl)"
    by (simp add: probe.simps color_index_def go_rem_def zeroColorPriority_def Let_def
          nth_Cons' list_update_code replicate_numeral_unfold)
  have ci: "color_index ?c = 18" by (simp add: color_index_def)
  have pr: "probe ?tbl 18 ?c 1 1 18 = Some (Inl IndexOutOfRange)"
    by (rule probe_futile) (simp_all add: zeroColorPriority_def)
  have s9: "scan_pixels ?q ?m 18 [(4, 4)] ?tbl = Some (Inl IndexOutOfRange)"
    using pr by (simp add: ci Let_def del: scan_pixels.simps add: scan_pixels.simps)
  have sc: "scan_pixels ?q ?m 18 (pixels ?m) (replicate 18 zeroColorPriority)
              = Some (Inl IndexOutOfRange)"
    by (simp only: px scan_pixels_append s8 s9 option.case sum.case)
  have bb: "snd (buildBucketMultiple ?q (\<lambda>y cb cr. (y, cb, cr)) \<lparr>maxCap = 0\<rparr> None [?m])
              = Some (Inl IndexOutOfRange)"
    using sc
    by (simp add: buildBucketMultiple_def MaxInt32_def wrap64_small getBucket_def
          make_slice_def contents_def Let_def)
  have "snd (Quantize ?q (\<lambda>y cb cr. (y, cb, cr)) \<lparr>maxCap = 0\<rparr> None
            \<lparr>elems = [], capacity = 4\<rparr> ?m) = Some (Inl IndexOutOfRange)"
    using bb
    by (cases "buildBucketMultiple ?q (\<lambda>y cb cr. (y, cb, cr)) \<lparr>maxCap = 0\<rparr> None [?m]")
       (auto simp: Quantize_def QuantizeMultiple_def split: option.splits sum.splits)
  with s8 pr ci show ?thesis by (simp only: simp_thms)
qed

end
